(* ===== verification/Prelude.thy ===== *)
theory Prelude imports Main "HOL-Library.Word" "HOL-Library.AList" "HOL-Library.Multiset" "HOL-Library.List_Lexorder" "HOL-Library.Char_ord" begin

text \<open>
  Shared ground of the development: the machine integers of the crate at their width, the
  standard-library operations of Rust the sources use (checked shift, saturating addition, clamp,
  big- and little-endian byte images, slice chunks), the result type,
  and two interfaces: a fixed-width codec and an invariant of a step system.
\<close>

unbundle bit_operations_syntax

section \<open>Types\<close>

type_synonym u8 = "8 word"
type_synonym u16 = "16 word"
type_synonym u32 = "32 word"
type_synonym u64 = "64 word"
type_synonym bytes = "u8 list"

text \<open>\<open>Result<T, E>\<close> is \<open>'e + 'a\<close>: \<open>Inl\<close> is \<open>Err\<close>, \<open>Inr\<close> is \<open>Ok\<close>.  A result of
  type \<open>'a option\<close> whose \<open>None\<close> stands for a panic of the source is written \<open>'a may_panic\<close>.\<close>

type_synonym ('e, 'a) result = "'e + 'a"
type_synonym 'a may_panic = "'a option"

abbreviation Err :: "'e \<Rightarrow> ('e, 'a) result" where "Err \<equiv> Inl"
abbreviation Ok :: "'a \<Rightarrow> ('e, 'a) result" where "Ok \<equiv> Inr"

named_theorems rust_std \<open>defining equations of the standard-library operations\<close>

definition is_ok :: "('e, 'a) result \<Rightarrow> bool" where
  "is_ok r \<longleftrightarrow> (case r of Inl _ \<Rightarrow> False | Inr _ \<Rightarrow> True)"

lemma is_ok_simps [simp]: "is_ok (Inr x)" "\<not> is_ok (Inl e)"
  by (simp_all add: is_ok_def)

lemma is_ok_iff: "is_ok r \<longleftrightarrow> (\<exists>x. r = Inr x)"
  by (cases r) auto

definition map_err :: "('e \<Rightarrow> 'f) \<Rightarrow> ('e, 'a) result \<Rightarrow> ('f, 'a) result" where
  "map_err f r = (case r of Inl e \<Rightarrow> Inl (f e) | Inr x \<Rightarrow> Inr x)"

lemma map_err_simps [simp]: "map_err f (Inl e) = Inl (f e)" "map_err f (Inr x) = Inr x"
  by (simp_all add: map_err_def)

lemma map_err_eq_iff [simp]:
  "map_err f r = Inr x \<longleftrightarrow> r = Inr x"
  "map_err f r = Inl e \<longleftrightarrow> (\<exists>e'. r = Inl e' \<and> e = f e')"
  "Inr x = map_err f r \<longleftrightarrow> r = Inr x"
  "Inl e = map_err f r \<longleftrightarrow> (\<exists>e'. r = Inl e' \<and> e = f e')"
  by (cases r; auto)+

section \<open>Integer operations of the standard library\<close>

text \<open>\<open>u64::checked_shl\<close>: \<open>None\<close> only when the shift amount is the width or more; the bits shifted
  out are lost without notice.\<close>

definition checked_shl :: "u64 \<Rightarrow> nat \<Rightarrow> u64 option" where
  [rust_std]: "checked_shl w n = (if n < 64 then Some (push_bit n w) else None)"

text \<open>\<open>u32::saturating_add(1)\<close>.\<close>

definition saturating_inc :: "u32 \<Rightarrow> u32" where
  [rust_std]: "saturating_inc w = (if w = - 1 then w else w + 1)"

text \<open>\<open>Ord::clamp\<close> asserts \<open>min <= max\<close>, so it panics otherwise.\<close>

definition ord_clamp :: "'a::linorder \<Rightarrow> 'a \<Rightarrow> 'a \<Rightarrow> 'a may_panic" where
  [rust_std]: "ord_clamp lo hi x = (if lo \<le> hi then Some (if x < lo then lo else if hi < x then hi else x) else None)"

lemma ord_clamp_bounds: "ord_clamp lo hi x = Some y \<Longrightarrow> lo \<le> y \<and> y \<le> hi"
  by (auto simp: ord_clamp_def split: if_splits)

lemma ord_clamp_total: "lo \<le> hi \<Longrightarrow> \<exists>y. ord_clamp lo hi x = Some y"
  by (simp add: ord_clamp_def)

lemma unat_saturating_inc: "unat (saturating_inc w) = min (unat w + 1) (2 ^ 32 - 1)"
proof -
  have m1: "unat (- 1 :: u32) = 2 ^ 32 - 1" by (simp add: unsigned_minus_1_eq_mask mask_eq_exp_minus_1)
  show ?thesis
  proof (cases "w = - 1")
    case True
    with m1 show ?thesis by (simp add: saturating_inc_def)
  next
    case False
    then have "unat w \<noteq> unat (- 1 :: u32)" by (simp only: word_unat_eq_iff not_False_eq_True)
    moreover have "unat w < 2 ^ 32" using unsigned_less [of w] by simp
    ultimately have lt: "unat w + 1 < 2 ^ 32" using m1 by linarith
    then have "unat (w + 1) = unat w + 1"
      by (simp add: unat_word_ariths)
    with False lt show ?thesis by (simp add: saturating_inc_def)
  qed
qed

section \<open>Byte images of integers\<close>

text \<open>\<open>be_bytes n w\<close> is \<open>w.to_be_bytes()\<close> for an integer of \<open>n\<close> bytes, \<open>from_be\<close> is \<open>from_be_bytes\<close>;
  the little-endian image is the reverse.\<close>

primrec be_bytes :: "nat \<Rightarrow> 'a::len word \<Rightarrow> bytes" where
  "be_bytes 0 w = []"
| "be_bytes (Suc n) w = be_bytes n (drop_bit 8 w) @ [ucast w]"

definition from_be :: "bytes \<Rightarrow> 'a::len word" where
  "from_be bs = foldl (\<lambda>acc b. push_bit 8 acc OR ucast b) 0 bs"

definition le_bytes :: "nat \<Rightarrow> 'a::len word \<Rightarrow> bytes" where
  "le_bytes n w = rev (be_bytes n w)"

definition from_le :: "bytes \<Rightarrow> 'a::len word" where
  "from_le bs = from_be (rev bs)"

lemma from_be_Nil [simp]: "from_be [] = 0"
  by (simp add: from_be_def)

lemma from_be_snoc [simp]: "from_be (bs @ [b]) = push_bit 8 (from_be bs) OR ucast b"
  by (simp add: from_be_def)

lemma length_be_bytes [simp]: "length (be_bytes n w) = n"
  by (induction n arbitrary: w) auto

lemma length_le_bytes [simp]: "length (le_bytes n w) = n"
  by (simp add: le_bytes_def)

lemma from_be_be_bytes_take_bit: "from_be (be_bytes n w) = take_bit (8 * n) w"
  for w :: "'a::len word"
proof (induction n arbitrary: w)
  case 0
  then show ?case by simp
next
  case (Suc n)
  have "push_bit 8 (take_bit (8 * n) (drop_bit 8 w)) OR ucast (ucast w :: u8) = take_bit (8 * Suc n) w"
    by (rule bit_word_eqI) (auto simp: bit_simps)
  with Suc.IH show ?case by simp
qed

lemma take_bit_word_all: "LENGTH('a) \<le> n \<Longrightarrow> take_bit n w = w" for w :: "'a::len word"
  by (rule bit_word_eqI) (auto simp: bit_simps)

lemma from_be_be_bytes: "LENGTH('a) \<le> 8 * n \<Longrightarrow> from_be (be_bytes n w) = w" for w :: "'a::len word"
  by (simp add: from_be_be_bytes_take_bit take_bit_word_all)

lemma be_bytes_from_be:
  "8 * length bs \<le> LENGTH('a) \<Longrightarrow> be_bytes (length bs) (from_be bs :: 'a::len word) = bs"
proof (induction bs rule: rev_induct)
  case Nil
  then show ?case by simp
next
  case (snoc b bs)
  let ?w = "from_be bs :: 'a word"
  have keep: "drop_bit 8 (push_bit 8 ?w OR ucast b) = ?w"
  proof (rule bit_word_eqI)
    fix k assume k: "k < LENGTH('a)"
    have "\<not> bit ?w k" if "LENGTH('a) \<le> k + 8"
    proof -
      have "from_be (be_bytes (length bs) ?w) = take_bit (8 * length bs) ?w"
        by (rule from_be_be_bytes_take_bit)
      moreover have "be_bytes (length bs) ?w = bs" using snoc by simp
      ultimately have "?w = take_bit (8 * length bs) ?w" by simp
      then have "bit ?w k = bit (take_bit (8 * length bs) ?w) k" by simp
      with that snoc.prems show ?thesis by (simp add: bit_simps)
    qed
    moreover have "\<not> bit b (8 + k)" by (auto dest: bit_imp_le_length)
    ultimately show "bit (drop_bit 8 (push_bit 8 ?w OR ucast b)) k = bit ?w k"
      using k by (cases "8 + k < LENGTH('a)") (auto simp: bit_simps)
  qed
  have low: "ucast (push_bit 8 ?w OR ucast b) = b"
    using snoc.prems by (intro bit_word_eqI) (auto simp: bit_simps)
  have "be_bytes (length bs) ?w = bs" using snoc by simp
  then show ?case by (simp only: length_append_singleton from_be_snoc be_bytes.simps keep low)
qed

section \<open>Interface: a fixed-width codec\<close>

locale fixed_codec =
  fixes enc :: "'a \<Rightarrow> bytes"
    and dec :: "bytes \<Rightarrow> 'a"
    and width :: nat
  assumes enc_length: "length (enc x) = width"
    and dec_enc: "dec (enc x) = x"
    and enc_dec: "length bs = width \<Longrightarrow> enc (dec bs) = bs"
begin

lemma enc_inject: "enc x = enc y \<longleftrightarrow> x = y"
  by (metis dec_enc)

lemma enc_append_inject: "enc x @ r = enc y @ s \<longleftrightarrow> x = y \<and> r = s"
  by (metis append_eq_append_conv dec_enc enc_length)

lemma dec_take: "dec (take width (enc x @ r)) = x"
  by (simp add: enc_length dec_enc)

lemma drop_enc: "drop width (enc x @ r) = r"
  by (simp add: enc_length)

lemma dec_inject: "length bs = width \<Longrightarrow> length cs = width \<Longrightarrow> dec bs = dec cs \<Longrightarrow> bs = cs"
  by (metis enc_dec)

end

interpretation be16: fixed_codec "be_bytes 2 :: u16 \<Rightarrow> bytes" from_be 2
proof unfold_locales
  fix bs :: bytes assume "length bs = 2"
  then show "be_bytes 2 (from_be bs :: u16) = bs" using be_bytes_from_be [of bs, where 'a = 16] by simp
qed (simp_all add: from_be_be_bytes)

interpretation be32: fixed_codec "be_bytes 4 :: u32 \<Rightarrow> bytes" from_be 4
proof unfold_locales
  fix bs :: bytes assume "length bs = 4"
  then show "be_bytes 4 (from_be bs :: u32) = bs" using be_bytes_from_be [of bs, where 'a = 32] by simp
qed (simp_all add: from_be_be_bytes)

interpretation be128: fixed_codec "be_bytes 16 :: 128 word \<Rightarrow> bytes" from_be 16
proof unfold_locales
  fix bs :: bytes assume "length bs = 16"
  then show "be_bytes 16 (from_be bs :: 128 word) = bs" using be_bytes_from_be [of bs, where 'a = 128] by simp
qed (simp_all add: from_be_be_bytes)

interpretation le32: fixed_codec "le_bytes 4 :: u32 \<Rightarrow> bytes" from_le 4
proof unfold_locales
  fix bs :: bytes assume "length bs = 4"
  then show "le_bytes 4 (from_le bs :: u32) = bs"
    using be32.enc_dec [of "rev bs"] by (simp add: le_bytes_def from_le_def)
qed (simp_all add: le_bytes_def from_le_def from_be_be_bytes)

section \<open>Interface: an invariant of a step system\<close>

locale step_invariant =
  fixes start :: "'s \<Rightarrow> bool"
    and step :: "'s \<Rightarrow> 's \<Rightarrow> bool"
    and inv :: "'s \<Rightarrow> bool"
  assumes inv_start: "start s \<Longrightarrow> inv s"
    and inv_step: "inv s \<Longrightarrow> step s t \<Longrightarrow> inv t"
begin

lemma inv_steps: "step\<^sup>*\<^sup>* s t \<Longrightarrow> inv s \<Longrightarrow> inv t"
  by (induction rule: rtranclp_induct) (auto intro: inv_step)

lemma inv_reachable: "start s \<Longrightarrow> step\<^sup>*\<^sup>* s t \<Longrightarrow> inv t"
  by (blast intro: inv_steps inv_start)

end

section \<open>Lists and strings\<close>

text \<open>\<open>slice::chunks\<close> (which panics on a zero size; the sources pass a positive constant).\<close>

function slice_chunks :: "nat \<Rightarrow> 'a list \<Rightarrow> 'a list list" where
  "slice_chunks n xs = (if xs = [] \<or> n = 0 then [] else take n xs # slice_chunks n (drop n xs))"
  by pat_completeness auto
termination
  by (relation "measure (\<lambda>(n, xs). length xs)") auto

declare slice_chunks.simps [simp del]

lemma slice_chunks_Nil [simp]: "slice_chunks n [] = []"
  by (simp add: slice_chunks.simps)

lemma slice_chunks_Cons: "xs \<noteq> [] \<Longrightarrow> 0 < n \<Longrightarrow> slice_chunks n xs = take n xs # slice_chunks n (drop n xs)"
  by (subst slice_chunks.simps) simp

lemma concat_slice_chunks: "0 < n \<Longrightarrow> concat (slice_chunks n xs) = xs"
proof (induction n xs rule: slice_chunks.induct)
  case (1 n xs)
  then show ?case by (cases "xs = []") (simp_all add: slice_chunks_Cons)
qed

lemma length_slice_chunks: "0 < n \<Longrightarrow> length (slice_chunks n xs) = (length xs + n - 1) div n"
proof (induction n xs rule: slice_chunks.induct)
  case (1 n xs)
  show ?case
  proof (cases "xs = []")
    case True
    with "1.prems" show ?thesis by simp
  next
    case False
    with 1 have IH: "length (slice_chunks n (drop n xs)) = (length xs - n + n - 1) div n" by simp
    show ?thesis
    proof (cases "length xs \<le> n")
      case True
      from False have "1 \<le> length xs" by (cases xs) simp_all
      with True "1.prems" have "n * 1 \<le> length xs + n - 1" and "length xs + n - 1 < n * Suc 1"
        by simp_all
      then have "(length xs + n - 1) div n = 1" by (rule div_nat_eqI)
      with True False "1.prems" show ?thesis by (simp add: slice_chunks_Cons)
    next
      case False
      then have "length xs + n - 1 = (length xs - 1) + n" by simp
      with "1.prems" have "(length xs + n - 1) div n = Suc ((length xs - 1) div n)"
        by (simp only: div_add_self2)
      with False \<open>xs \<noteq> []\<close> IH "1.prems" show ?thesis by (simp add: slice_chunks_Cons)
    qed
  qed
qed

lemma nth_slice_chunks:
  "0 < n \<Longrightarrow> k < length (slice_chunks n xs) \<Longrightarrow> slice_chunks n xs ! k = take n (drop (k * n) xs)"
proof (induction n xs arbitrary: k rule: slice_chunks.induct)
  case (1 n xs)
  show ?case
  proof (cases "xs = []")
    case True
    with "1.prems" show ?thesis by simp
  next
    case False
    with 1 show ?thesis
      by (cases k) (simp_all add: slice_chunks_Cons add.commute)
  qed
qed

text \<open>Decimal \<open>Display\<close> of an unsigned integer, and the UTF-8 bytes of the em dash used in messages.\<close>

fun show_nat :: "nat \<Rightarrow> string" where
  "show_nat n = (if n < 10 then [char_of (48 + n)] else show_nat (n div 10) @ [char_of (48 + n mod 10)])"

declare show_nat.simps [simp del]

definition em_dash :: string where
  "em_dash = [CHR 0xE2, CHR 0x80, CHR 0x94]"

text \<open>\<open>str::as_bytes\<close>: a character stands for a byte of the UTF-8 encoding.\<close>

definition into_bytes :: "string \<Rightarrow> bytes" where
  "into_bytes s = map (\<lambda>c. of_nat (of_char c)) s"

lemma length_into_bytes [simp]: "length (into_bytes s) = length s"
  by (simp add: into_bytes_def)

lemma into_bytes_inject [simp]: "into_bytes s = into_bytes t \<longleftrightarrow> s = t"
proof -
  have "unat (of_nat (of_char c) :: u8) = of_char c" for c :: char
    by (simp add: unsigned_of_nat take_bit_nat_eq_self nat_of_char_less_256)
  then have "inj (\<lambda>c :: char. of_nat (of_char c) :: u8)" by (metis injI of_char_eq_iff)
  then show ?thesis by (auto simp: into_bytes_def inj_map_eq_map)
qed

section \<open>Asynchronous computations with time\<close>

text \<open>A future that completes with a value after a delay (in milliseconds), or never (\<open>None\<close>).\<close>

type_synonym 'a future = "(nat \<times> 'a) option"

definition ready :: "'a \<Rightarrow> 'a future" where
  "ready x = Some (0, x)"

definition await :: "'a future \<Rightarrow> ('a \<Rightarrow> 'b future) \<Rightarrow> 'b future" where
  "await f k = (case f of None \<Rightarrow> None | Some (d, x) \<Rightarrow>
     (case k x of None \<Rightarrow> None | Some (e, y) \<Rightarrow> Some (d + e, y)))"

text \<open>\<open>f.await?\<close>: an error is returned at once.\<close>

definition await_ok :: "('e, 'a) result future \<Rightarrow> ('a \<Rightarrow> ('e, 'b) result future) \<Rightarrow> ('e, 'b) result future" where
  "await_ok f k = await f (\<lambda>r. case r of Inl e \<Rightarrow> ready (Inl e) | Inr x \<Rightarrow> k x)"

definition map_future :: "('a \<Rightarrow> 'b) \<Rightarrow> 'a future \<Rightarrow> 'b future" where
  "map_future g f = map_option (\<lambda>(d, x). (d, g x)) f"

lemma ready_simps [simp]: "ready x = Some (d, y) \<longleftrightarrow> d = 0 \<and> y = x" "ready x \<noteq> None"
  by (auto simp: ready_def)

lemma await_ready [simp]: "await (ready x) k = k x"
  by (cases "k x") (auto simp: await_def ready_def split: option.splits)

lemma await_eq_Some:
  "await f k = Some (t, y) \<longleftrightarrow> (\<exists>d x e. f = Some (d, x) \<and> k x = Some (e, y) \<and> t = d + e)"
  by (auto simp: await_def split: option.splits prod.splits)

lemma await_ok_eq_Ok:
  "await_ok f k = Some (t, Inr y) \<longleftrightarrow> (\<exists>d x e. f = Some (d, Inr x) \<and> k x = Some (e, Inr y) \<and> t = d + e)"
  by (cases f; auto simp: await_ok_def await_def ready_def split: option.splits prod.splits sum.splits)

lemma await_ok_eq_Err:
  "await_ok f k = Some (t, Inl er) \<longleftrightarrow> f = Some (t, Inl er) \<or>
     (\<exists>d x e. f = Some (d, Inr x) \<and> k x = Some (e, Inl er) \<and> t = d + e)"
  by (cases f; auto simp: await_ok_def await_def ready_def split: option.splits prod.splits sum.splits)

lemma map_future_eq_Some [simp]:
  "map_future g f = Some (t, y) \<longleftrightarrow> (\<exists>x. f = Some (t, x) \<and> y = g x)"
  by (auto simp: map_future_def)

text \<open>A timer of \<open>t\<close> against a completion after \<open>d\<close>: the timer library fixes the outcome when the two
  differ; which one wins when both are due at once is the parameter \<open>tie\<close>.\<close>

definition in_time :: "bool \<Rightarrow> nat \<Rightarrow> nat \<Rightarrow> bool" where
  "in_time tie d t \<longleftrightarrow> d < t \<or> d = t \<and> tie"

text \<open>The value a future bounded by a timer yields (\<open>None\<close>: elapsed), and when.\<close>

definition timeout :: "bool \<Rightarrow> nat \<Rightarrow> 'a future \<Rightarrow> nat \<times> 'a option" where
  "timeout tie t f = (case f of Some (d, x) \<Rightarrow> if in_time tie d t then (d, Some x) else (t, None) | None \<Rightarrow> (t, None))"

lemma timeout_bound: "fst (timeout tie t f) \<le> t"
  by (auto simp: timeout_def in_time_def split: option.splits)

lemma timeout_Some: "timeout tie t f = (d, Some x) \<Longrightarrow> f = Some (d, x)"
  by (auto simp: timeout_def split: option.splits if_splits)

end
