(* ===== verification/Chunk_Lens.thy ===== *)
theory Chunk_Lens imports Prelude begin

text \<open>
  The reassembly of a paged \<open>chunk_lens\<close> prologue (\<open>src/src/mux.rs\<close>): \<open>ChunkLensAssembler\<close> with its
  operations \<open>new\<close>, \<open>accept_page\<close>, \<open>is_complete\<close>, \<open>into_chunk_lens\<close>, and the sender's half
  \<open>RangeFrame::split_chunk_lens_pages\<close>.

  The assembler is a record with the struct's three fields.  An operation that takes \<open>&mut self\<close>
  returns the result and the new state; an index or slice that would be out of range is the panic
  value \<open>None\<close>.  A \<open>usize\<close> is a \<open>nat\<close> (64-bit host), an offset a \<open>64 word\<close>.  Whether the allocator
  grants a reservation is the parameter \<open>reserve\<close>.

  The locale \<open>slot_store\<close> is the contract the reader of a prologue relies on (a slot is written at
  most once, by a page that fits it); the theorems about whole page streams are proved in it and
  obtained for the assembler by interpretation.
\<close>

section \<open>Constants and errors\<close>

definition MAX_CHUNK_LENS_PER_FRAME :: nat where
  "MAX_CHUNK_LENS_PER_FRAME = 2048"

definition MAX_RESOURCE_CHUNK_COUNT :: nat where
  "MAX_RESOURCE_CHUNK_COUNT = 1048576"

datatype chunk_lens_error =
    ChunkCountTooLarge nat
  | AllocationFailed nat nat
  | EmptyPage u64
  | PageTooLarge nat
  | MisalignedOffset u64
  | OffsetOutOfRange u64 nat
  | PageExtendsPastEnd u64 nat nat
  | UnexpectedPageLength u64 nat nat
  | DuplicatePage u64
  | Incomplete nat nat

section \<open>The assembler\<close>

record assembler =
  lens :: "u64 list"
  filled :: "bool list"
  filled_pages :: nat

definition div_ceil :: "nat \<Rightarrow> nat \<Rightarrow> nat" where
  "div_ceil n d = (n + d - 1) div d"

text \<open>\<open>reserve b\<close> says whether \<open>try_reserve_exact\<close> for \<open>b\<close> bytes succeeds; \<open>u64\<close> entries take 8 bytes,
  flags one.\<close>

definition assembler_new :: "(nat \<Rightarrow> bool) \<Rightarrow> nat \<Rightarrow> (chunk_lens_error, assembler) result" where
  "assembler_new reserve chunk_count =
    (if MAX_RESOURCE_CHUNK_COUNT < chunk_count then Err (ChunkCountTooLarge chunk_count)
     else if \<not> reserve (chunk_count * 8) then Err (AllocationFailed chunk_count (chunk_count * 8))
     else let page_count = div_ceil chunk_count MAX_CHUNK_LENS_PER_FRAME in
       if \<not> reserve page_count then Err (AllocationFailed chunk_count page_count)
       else Ok \<lparr> lens = replicate chunk_count 0, filled = replicate page_count False, filled_pages = 0 \<rparr>)"

text \<open>\<open>xs[a..b].copy_from_slice(ys)\<close>: panics when the range is not inside \<open>xs\<close> or the lengths differ.\<close>

definition copy_from_slice :: "'a list \<Rightarrow> nat \<Rightarrow> nat \<Rightarrow> 'a list \<Rightarrow> 'a list may_panic" where
  [rust_std]: "copy_from_slice xs a b ys =
    (if a \<le> b \<and> b \<le> length xs \<and> length ys = b - a then Some (take a xs @ ys @ drop b xs) else None)"

definition accept_page ::
  "assembler \<Rightarrow> u64 \<Rightarrow> u64 list \<Rightarrow> ((chunk_lens_error, unit) result \<times> assembler) may_panic" where
  "accept_page self offset page =
    (let chunk_count = length (lens self); page_size = MAX_CHUNK_LENS_PER_FRAME in
     if page = [] then Some (Err (EmptyPage offset), self)
     else if MAX_CHUNK_LENS_PER_FRAME < length page then Some (Err (PageTooLarge (length page)), self)
     else if unat offset mod page_size \<noteq> 0 then Some (Err (MisalignedOffset offset), self)
     else if chunk_count \<le> unat offset then Some (Err (OffsetOutOfRange offset chunk_count), self)
     else
       let start = unat offset; stop = start + length page in
       if chunk_count < stop then Some (Err (PageExtendsPastEnd offset (length page) chunk_count), self)
       else
         let expected = min MAX_CHUNK_LENS_PER_FRAME (chunk_count - start) in
         if length page \<noteq> expected then Some (Err (UnexpectedPageLength offset (length page) expected), self)
         else
           let slot = start div MAX_CHUNK_LENS_PER_FRAME in
           if length (filled self) \<le> slot then None
           else if filled self ! slot then Some (Err (DuplicatePage offset), self)
           else (case copy_from_slice (lens self) start stop page of
               None \<Rightarrow> None
             | Some lens' \<Rightarrow> Some (Ok (),
                 self\<lparr> lens := lens', filled := (filled self)[slot := True],
                       filled_pages := filled_pages self + 1 \<rparr>)))"

definition is_complete :: "assembler \<Rightarrow> bool" where
  "is_complete self \<longleftrightarrow> filled_pages self = length (filled self)"

definition have_entries :: "assembler \<Rightarrow> nat" where
  "have_entries self =
    sum_list (map (\<lambda>(slot, _). min MAX_CHUNK_LENS_PER_FRAME (length (lens self) - slot * MAX_CHUNK_LENS_PER_FRAME))
      (List.filter (\<lambda>(_, filled). filled) (enumerate 0 (filled self))))"

definition into_chunk_lens :: "assembler \<Rightarrow> (chunk_lens_error, u64 list) result" where
  "into_chunk_lens self =
    (if \<not> is_complete self then Err (Incomplete (have_entries self) (length (lens self)))
     else Ok (lens self))"

section \<open>The sender's half\<close>

definition split_chunk_lens_pages :: "u64 list \<Rightarrow> (u64 \<times> u64 list) list" where
  "split_chunk_lens_pages chunk_lens =
    map (\<lambda>(page, entries). (of_nat (page * MAX_CHUNK_LENS_PER_FRAME), entries))
      (enumerate 0 (slice_chunks MAX_CHUNK_LENS_PER_FRAME chunk_lens))"

section \<open>Interface: a store whose slots are written once\<close>

text \<open>A reader that keeps the state on an \<open>Err\<close> and moves on with an \<open>Ok\<close>.\<close>

definition offer_all :: "('s \<Rightarrow> 'k \<Rightarrow> 'v \<Rightarrow> 's option) \<Rightarrow> 's \<Rightarrow> ('k \<times> 'v) list \<Rightarrow> 's" where
  "offer_all accept = foldl (\<lambda>s (k, v). case accept s k v of None \<Rightarrow> s | Some t \<Rightarrow> t)"

lemma offer_all_simps [simp]:
  "offer_all accept s [] = s"
  "offer_all accept s ((k, v) # ps) =
     offer_all accept (case accept s k v of None \<Rightarrow> s | Some t \<Rightarrow> t) ps"
  by (simp_all add: offer_all_def)

text \<open>A reader that stops at the first \<open>Err\<close>.\<close>

fun accept_all :: "('s \<Rightarrow> 'k \<Rightarrow> 'v \<Rightarrow> 's option) \<Rightarrow> 's \<Rightarrow> ('k \<times> 'v) list \<Rightarrow> 's option" where
  "accept_all accept s [] = Some s"
| "accept_all accept s ((k, v) # ps) = (case accept s k v of None \<Rightarrow> None | Some t \<Rightarrow> accept_all accept t ps)"

locale slot_store =
  fixes accept :: "'s \<Rightarrow> 'k \<Rightarrow> 'v \<Rightarrow> 's option"
    and view :: "'s \<Rightarrow> 'k \<Rightarrow> 'v option"
    and fits :: "'s \<Rightarrow> 'k \<Rightarrow> 'v \<Rightarrow> bool"
    and good :: "'s \<Rightarrow> bool"
  assumes accept_None: "good s \<Longrightarrow> accept s k v = None \<longleftrightarrow> \<not> fits s k v \<or> view s k \<noteq> None"
    and accept_good: "good s \<Longrightarrow> accept s k v = Some t \<Longrightarrow> good t"
    and accept_view: "good s \<Longrightarrow> accept s k v = Some t \<Longrightarrow> view t = (view s)(k \<mapsto> v)"
    and accept_fits: "good s \<Longrightarrow> accept s k v = Some t \<Longrightarrow> fits t = fits s"
begin

lemma offer_step:
  assumes "good s"
  shows "good (case accept s k v of None \<Rightarrow> s | Some t \<Rightarrow> t)"
    and "fits (case accept s k v of None \<Rightarrow> s | Some t \<Rightarrow> t) = fits s"
  using assms accept_good [OF assms, of k v] accept_fits [OF assms, of k v] by (auto split: option.split)

lemma offer_all_good: "good s \<Longrightarrow> good (offer_all accept s ps)"
  by (induction ps arbitrary: s) (auto simp: offer_step)

lemma offer_all_fits: "good s \<Longrightarrow> fits (offer_all accept s ps) = fits s"
  by (induction ps arbitrary: s) (auto simp: offer_step)

lemma view_offer_all:
  "good s \<Longrightarrow> view (offer_all accept s ps) k =
     (case view s k of Some v \<Rightarrow> Some v | None \<Rightarrow> map_of (List.filter (\<lambda>(k, v). fits s k v) ps) k)"
proof (induction ps arbitrary: s)
  case Nil
  then show ?case by (simp split: option.split)
next
  case (Cons p ps)
  obtain k' v' where p: "p = (k', v')" by (cases p)
  show ?case
  proof (cases "accept s k' v'")
    case None
    with Cons.prems have "\<not> fits s k' v' \<or> view s k' \<noteq> None" by (simp add: accept_None)
    with Cons None show ?thesis by (auto simp: p split: option.splits)
  next
    case (Some t)
    with Cons.prems have t: "good t" "view t = (view s)(k' \<mapsto> v')" "fits t = fits s"
      by (auto dest: accept_good accept_view accept_fits)
    have "fits s k' v'" "view s k' = None" using Some accept_None [of s k' v'] Cons.prems by auto
    with Cons.IH [OF t(1)] Some t show ?thesis by (auto simp: p split: option.splits)
  qed
qed

lemma accept_all_fitting:
  "good s \<Longrightarrow> \<forall>(k, v) \<in> set ps. fits s k v \<and> view s k = None \<Longrightarrow> distinct (map fst ps) \<Longrightarrow>
   accept_all accept s ps = Some (offer_all accept s ps)"
proof (induction ps arbitrary: s)
  case Nil
  then show ?case by simp
next
  case (Cons p ps)
  obtain k v where p: "p = (k, v)" by (cases p)
  with Cons.prems accept_None [of s k v] obtain t where t: "accept s k v = Some t"
    by (cases "accept s k v") auto
  note facts = accept_good [OF Cons.prems(1) t] accept_view [OF Cons.prems(1) t] accept_fits [OF Cons.prems(1) t]
  have "\<forall>(k', v') \<in> set ps. fits t k' v' \<and> view t k' = None"
    using Cons.prems(2,3) facts by (force simp: p)
  with Cons.IH [OF facts(1)] Cons.prems(3) t show ?case by (simp add: p)
qed

text \<open>Once written, a slot keeps its content whatever is offered later.\<close>

lemma view_stable: "good s \<Longrightarrow> view s k = Some v \<Longrightarrow> view (offer_all accept s ps) k = Some v"
  by (simp add: view_offer_all)

text \<open>Pages with pairwise different keys may be offered in any order.\<close>

lemma offer_all_order:
  assumes "good s" "mset ps = mset qs" "distinct (map fst ps)"
  shows "view (offer_all accept s ps) = view (offer_all accept s qs)"
proof
  fix k
  let ?f = "List.filter (\<lambda>(k, v). fits s k v)"
  have "mset (map fst qs) = mset (map fst ps)" using assms(2) by (simp add: mset_map)
  with assms(3) have "distinct (map fst qs)" using mset_eq_imp_distinct_iff by blast
  moreover have "distinct (map fst (?f zs))" if "distinct (map fst zs)" for zs :: "('k \<times> 'v) list"
    using that by (induction zs) auto
  moreover have "set (?f ps) = set (?f qs)" using assms(2) by (metis mset_eq_setD mset_filter)
  ultimately have "map_of (?f ps) = map_of (?f qs)" using assms(3) by (intro map_of_inject_set [THEN iffD2])
  then show "view (offer_all accept s ps) k = view (offer_all accept s qs) k"
    using assms(1) by (simp add: view_offer_all split: option.split)
qed

end

section \<open>The assembler implements the interface\<close>

abbreviation page_size :: nat where
  "page_size \<equiv> MAX_CHUNK_LENS_PER_FRAME"

lemma page_size_pos [simp]: "0 < page_size" "page_size \<noteq> 0"
  by (simp_all add: MAX_CHUNK_LENS_PER_FRAME_def)

text \<open>The representation invariant: one flag per slot, and the counter counts the flags.\<close>

definition assembler_ok :: "assembler \<Rightarrow> bool" where
  "assembler_ok s \<longleftrightarrow>
     length (lens s) \<le> MAX_RESOURCE_CHUNK_COUNT \<and>
     length (filled s) = div_ceil (length (lens s)) page_size \<and>
     filled_pages s = length (List.filter (\<lambda>b. b) (filled s))"

text \<open>What the guards of \<open>accept_page\<close> ask of a page, whatever is already filled.\<close>

definition page_fits :: "assembler \<Rightarrow> u64 \<Rightarrow> u64 list \<Rightarrow> bool" where
  "page_fits s offset page \<longleftrightarrow>
     unat offset mod page_size = 0 \<and> unat offset < length (lens s) \<and>
     length page = min page_size (length (lens s) - unat offset)"

definition page_view :: "assembler \<Rightarrow> u64 \<Rightarrow> u64 list option" where
  "page_view s offset =
     (if unat offset mod page_size = 0 \<and> unat offset < length (lens s) \<and> filled s ! (unat offset div page_size)
      then Some (take page_size (drop (unat offset) (lens s))) else None)"

text \<open>The reader's step: the new state after an \<open>Ok\<close>.\<close>

definition accepted :: "assembler \<Rightarrow> u64 \<Rightarrow> u64 list \<Rightarrow> assembler option" where
  "accepted s offset page =
     (case accept_page s offset page of Some (Inr _, t) \<Rightarrow> Some t | _ \<Rightarrow> None)"

lemma slot_in_range: "k < n \<Longrightarrow> k div page_size < div_ceil n page_size"
proof -
  assume "k < n"
  then have "k + page_size \<le> n + page_size - 1" by simp
  then have "(k + page_size) div page_size \<le> div_ceil n page_size"
    unfolding div_ceil_def by (rule div_le_mono)
  moreover have "(k + page_size) div page_size = k div page_size + 1"
    by (rule div_add_self2) (rule page_size_pos)
  ultimately show ?thesis by linarith
qed

lemma slot_start_in_range: "slot < div_ceil n page_size \<Longrightarrow> slot * page_size < n"
proof -
  assume "slot < div_ceil n page_size"
  then have "Suc slot \<le> (n + page_size - 1) div page_size" by (simp add: div_ceil_def)
  then have "Suc slot * page_size \<le> n + page_size - 1"
    by (simp only: less_eq_div_iff_mult_less_eq page_size_pos)
  then have "slot * page_size + page_size \<le> n + page_size - 1" by simp
  with page_size_pos(1) show ?thesis by linarith
qed

lemma page_fits_nonempty: "page_fits s offset page \<Longrightarrow> page \<noteq> [] \<and> length page \<le> page_size \<and>
    unat offset + length page \<le> length (lens s)"
  using page_size_pos by (cases page) (auto simp: page_fits_def min_def split: if_splits)

lemma accept_page_Ok:
  assumes "assembler_ok s" "page_fits s offset page" "\<not> filled s ! (unat offset div page_size)"
  shows "accept_page s offset page = Some (Ok (),
     s\<lparr> lens := take (unat offset) (lens s) @ page @ drop (unat offset + length page) (lens s),
        filled := (filled s)[unat offset div page_size := True], filled_pages := filled_pages s + 1 \<rparr>)"
  using assms page_fits_nonempty [OF assms(2)] slot_in_range [of "unat offset" "length (lens s)"]
  by (simp add: accept_page_def page_fits_def assembler_ok_def copy_from_slice_def Let_def not_le)

lemma accept_page_refused:
  assumes "assembler_ok s" "\<not> page_fits s offset page \<or> filled s ! (unat offset div page_size)"
  shows "\<exists>e. accept_page s offset page = Some (Err e, s)"
proof -
  let ?n = "length (lens s)"
  show ?thesis
  proof (cases "page = [] \<or> page_size < length page \<or> unat offset mod page_size \<noteq> 0 \<or> ?n \<le> unat offset \<or>
      ?n < unat offset + length page \<or> length page \<noteq> min page_size (?n - unat offset)")
    case True
    then show ?thesis by (simp only: accept_page_def Let_def split: if_split) blast
  next
    case False
    with assms(2) have "filled s ! (unat offset div page_size)" by (simp add: page_fits_def)
    moreover have "\<not> length (filled s) \<le> unat offset div page_size"
      using False assms(1) slot_in_range by (simp add: assembler_ok_def not_le)
    ultimately show ?thesis using False
      by (simp only: accept_page_def Let_def if_True if_False de_Morgan_disj not_not split: if_split) blast
  qed
qed

lemma accepted_eq:
  assumes "assembler_ok s"
  shows "accepted s offset page =
    (if page_fits s offset page \<and> \<not> filled s ! (unat offset div page_size)
     then Some (s\<lparr> lens := take (unat offset) (lens s) @ page @ drop (unat offset + length page) (lens s),
        filled := (filled s)[unat offset div page_size := True], filled_pages := filled_pages s + 1 \<rparr>)
     else None)"
proof (cases "page_fits s offset page \<and> \<not> filled s ! (unat offset div page_size)")
  case True
  with assms show ?thesis by (simp add: accepted_def accept_page_Ok)
next
  case False
  with accept_page_refused [OF assms, of offset page] show ?thesis by (auto simp: accepted_def)
qed

lemma count_flag_set:
  "k < length bs \<Longrightarrow> \<not> bs ! k \<Longrightarrow>
     length (List.filter (\<lambda>b. b) (bs[k := True])) = Suc (length (List.filter (\<lambda>b. b) bs))"
  by (induction bs arbitrary: k) (auto split: nat.splits simp: nth_Cons')

lemma aligned_slot_inject:
  "unat x mod page_size = 0 \<Longrightarrow> unat y mod page_size = 0 \<Longrightarrow>
   unat x div page_size = unat y div page_size \<longleftrightarrow> x = y"
  by (metis word_unat_eq_iff mult_div_mod_eq)

lemma accepted_ok:
  assumes "assembler_ok s" "accepted s offset page = Some t"
  shows "assembler_ok t" "length (lens t) = length (lens s)"
proof -
  have f: "page_fits s offset page" "\<not> filled s ! (unat offset div page_size)"
    using assms by (auto simp: accepted_eq split: if_splits)
  have "unat offset div page_size < length (filled s)"
    using f(1) assms(1) by (simp add: page_fits_def assembler_ok_def slot_in_range)
  with f assms show "assembler_ok t" "length (lens t) = length (lens s)"
    using page_fits_nonempty [OF f(1)]
    by (auto simp: accepted_eq assembler_ok_def count_flag_set)
qed

lemma page_view_accepted:
  assumes "assembler_ok s" "accepted s offset page = Some t"
  shows "page_view t = (page_view s)(offset \<mapsto> page)"
proof
  fix x
  let ?n = "length (lens s)" and ?o = "unat offset"
  from assms have f: "page_fits s offset page" "\<not> filled s ! (?o div page_size)"
    and t: "t = s\<lparr> lens := take ?o (lens s) @ page @ drop (?o + length page) (lens s),
        filled := (filled s)[?o div page_size := True], filled_pages := filled_pages s + 1 \<rparr>"
    by (auto simp: accepted_eq split: if_splits)
  have slot: "?o div page_size < length (filled s)"
    using f(1) assms(1) by (simp add: page_fits_def assembler_ok_def slot_in_range)
  note ne = page_fits_nonempty [OF f(1)]
  show "page_view t x = ((page_view s)(offset \<mapsto> page)) x"
  proof (cases "x = offset")
    case True
    have "take page_size (page @ drop (?o + length page) (lens s)) = page"
    proof (cases "length page = page_size")
      case False
      with f(1) have "?o + length page = ?n" by (auto simp: page_fits_def min_def split: if_splits)
      with ne show ?thesis by simp
    qed simp
    with True f ne slot show ?thesis by (simp add: t page_view_def page_fits_def)
  next
    case False
    show ?thesis
    proof (cases "unat x mod page_size = 0 \<and> unat x < ?n")
      case True
      with False f(1) have ne_slot: "unat x div page_size \<noteq> ?o div page_size"
        by (metis aligned_slot_inject page_fits_def)
      have same: "take page_size (drop (unat x) (lens t)) = take page_size (drop (unat x) (lens s))"
      proof (cases "unat x < ?o")
        case True
        then have "unat x div page_size < ?o div page_size"
          using ne_slot div_le_mono [of "unat x" ?o page_size] by linarith
        then have "(unat x div page_size + 1) * page_size \<le> ?o div page_size * page_size"
          by (intro mult_le_mono) simp_all
        moreover have "unat x div page_size * page_size = unat x" "?o div page_size * page_size = ?o"
          using \<open>unat x mod page_size = 0 \<and> unat x < ?n\<close> f(1)
          by (simp_all add: page_fits_def flip: minus_mod_eq_div_mult)
        ultimately have "unat x + page_size \<le> ?o" by simp
        with ne show ?thesis by (auto simp: t drop_take min_def)
      next
        case False
        then have "?o div page_size < unat x div page_size"
          using ne_slot div_le_mono [of ?o "unat x" page_size] by linarith
        then have "(?o div page_size + 1) * page_size \<le> unat x div page_size * page_size"
          by (intro mult_le_mono) simp_all
        moreover have "unat x div page_size * page_size = unat x" "?o div page_size * page_size = ?o"
          using \<open>unat x mod page_size = 0 \<and> unat x < ?n\<close> f(1)
          by (simp_all add: page_fits_def flip: minus_mod_eq_div_mult)
        ultimately have "?o + length page \<le> unat x" using ne by simp
        with ne show ?thesis by (simp add: t min_def add.commute)
      qed
      have "length (lens t) = ?n" using accepted_ok [OF assms] by simp
      with True same ne_slot \<open>x \<noteq> offset\<close> slot show ?thesis by (simp add: page_view_def) (simp add: t)
    next
      case False
      moreover have "length (lens t) = ?n" using accepted_ok [OF assms] by simp
      ultimately show ?thesis using \<open>x \<noteq> offset\<close> by (auto simp: page_view_def)
    qed
  qed
qed

interpretation pages: slot_store accepted page_view page_fits assembler_ok
proof
  fix s t offset page assume ok: "assembler_ok s"
  show "accepted s offset page = None \<longleftrightarrow> \<not> page_fits s offset page \<or> page_view s offset \<noteq> None"
    using ok by (auto simp: accepted_eq page_view_def page_fits_def)
  assume acc: "accepted s offset page = Some t"
  show "assembler_ok t" using ok acc by (rule accepted_ok)
  show "page_view t = (page_view s)(offset \<mapsto> page)" using ok acc by (rule page_view_accepted)
  show "page_fits t = page_fits s"
    by (intro ext) (simp add: page_fits_def accepted_ok [OF ok acc])
qed

section \<open>A fresh assembler, and what a full one yields\<close>

lemma assembler_new_Ok:
  assumes "assembler_new reserve n = Ok a"
  shows "assembler_ok a" "length (lens a) = n" "n \<le> MAX_RESOURCE_CHUNK_COUNT" "page_view a = Map.empty"
proof -
  have a: "a = \<lparr> lens = replicate n 0, filled = replicate (div_ceil n page_size) False, filled_pages = 0 \<rparr>"
    and n: "n \<le> MAX_RESOURCE_CHUNK_COUNT"
    using assms by (auto simp: assembler_new_def Let_def split: if_splits)
  show "assembler_ok a" "length (lens a) = n" "n \<le> MAX_RESOURCE_CHUNK_COUNT"
    using n by (simp_all add: a assembler_ok_def)
  show "page_view a = Map.empty"
    by (rule ext) (simp add: a page_view_def slot_in_range)
qed

definition slot_offset :: "nat \<Rightarrow> u64" where
  "slot_offset slot = of_nat (slot * page_size)"

lemma unat_slot_offset:
  assumes "slot < div_ceil n page_size" "n \<le> MAX_RESOURCE_CHUNK_COUNT"
  shows "unat (slot_offset slot) = slot * page_size"
proof -
  have "slot * page_size < n" using assms(1) by (rule slot_start_in_range)
  also have "n \<le> 2 ^ 64 - 1" using assms(2) by (simp add: MAX_RESOURCE_CHUNK_COUNT_def)
  finally have "slot * page_size < 2 ^ LENGTH(64)" by simp
  then show ?thesis by (simp only: slot_offset_def unat_of_nat) (simp add: take_bit_eq_mod)
qed

lemma page_view_slot:
  assumes "assembler_ok s" "slot < length (filled s)"
  shows "page_view s (slot_offset slot) =
    (if filled s ! slot then Some (take page_size (drop (slot * page_size) (lens s))) else None)"
proof -
  have "slot < div_ceil (length (lens s)) page_size" using assms by (simp add: assembler_ok_def)
  moreover from this have "unat (slot_offset slot) = slot * page_size"
    using assms(1) by (intro unat_slot_offset [of _ "length (lens s)"]) (auto simp: assembler_ok_def)
  ultimately show ?thesis by (simp add: page_view_def slot_start_in_range)
qed

lemma is_complete_iff:
  assumes "assembler_ok s"
  shows "is_complete s \<longleftrightarrow> (\<forall>slot < length (filled s). page_view s (slot_offset slot) \<noteq> None)"
proof -
  have "is_complete s \<longleftrightarrow> (\<forall>b \<in> set (filled s). b)"
    using assms length_filter_less [of _ "filled s" "\<lambda>b. b"]
    by (fastforce simp: is_complete_def assembler_ok_def)
  also have "\<dots> \<longleftrightarrow> (\<forall>slot < length (filled s). filled s ! slot)"
    by (metis in_set_conv_nth)
  also have "\<dots> \<longleftrightarrow> (\<forall>slot < length (filled s). page_view s (slot_offset slot) \<noteq> None)"
    using assms by (auto simp: page_view_slot)
  finally show ?thesis .
qed

lemma slice_chunks_slots:
  "slice_chunks page_size xs = map (\<lambda>slot. take page_size (drop (slot * page_size) xs)) [0..<div_ceil (length xs) page_size]"
  by (rule nth_equalityI) (simp_all add: length_slice_chunks div_ceil_def nth_slice_chunks)

lemma into_chunk_lens_complete:
  assumes "assembler_ok s" "is_complete s"
  shows "into_chunk_lens s = Ok (concat (map (\<lambda>slot. the (page_view s (slot_offset slot))) [0..<length (filled s)]))"
proof -
  have len: "length (filled s) = div_ceil (length (lens s)) page_size"
    using assms(1) by (simp add: assembler_ok_def)
  have "the (page_view s (slot_offset slot)) = take page_size (drop (slot * page_size) (lens s))"
    if "slot < length (filled s)" for slot
    using that assms(2) is_complete_iff [OF assms(1)] page_view_slot [OF assms(1) that]
    by (auto split: if_splits)
  then have "map (\<lambda>slot. the (page_view s (slot_offset slot))) [0..<length (filled s)] = slice_chunks page_size (lens s)"
    by (simp add: slice_chunks_slots flip: len)
  then show ?thesis using assms(2) by (simp add: into_chunk_lens_def concat_slice_chunks)
qed

lemma sum_filled_le:
  fixes g :: "nat \<Rightarrow> nat"
  shows "sum_list (map (\<lambda>(k, _). g k) (List.filter (\<lambda>(_, b). b) (enumerate m bs))) \<le> (\<Sum>k = m..<m + length bs. g k)"
proof (induction bs arbitrary: m)
  case (Cons b bs)
  have "(\<Sum>k = m..<m + length (b # bs). g k) = g m + (\<Sum>k = Suc m..<Suc m + length bs. g k)"
    by (simp add: sum.atLeast_Suc_lessThan)
  with Cons.IH [of "Suc m"] show ?case by (cases b) simp_all
qed simp

lemma sum_filled_less:
  fixes g :: "nat \<Rightarrow> nat"
  assumes "k < length bs" "\<not> bs ! k" "0 < g (m + k)"
  shows "sum_list (map (\<lambda>(k, _). g k) (List.filter (\<lambda>(_, b). b) (enumerate m bs))) < (\<Sum>k = m..<m + length bs. g k)"
  using assms
proof (induction bs arbitrary: m k)
  case (Cons b bs)
  have split: "(\<Sum>k = m..<m + length (b # bs). g k) = g m + (\<Sum>k = Suc m..<Suc m + length bs. g k)"
    by (simp add: sum.atLeast_Suc_lessThan)
  show ?case
  proof (cases k)
    case 0
    with Cons.prems sum_filled_le [of g "Suc m" bs] split show ?thesis by simp
  next
    case (Suc j)
    with Cons.prems have "sum_list (map (\<lambda>(k, _). g k) (List.filter (\<lambda>(_, b). b) (enumerate (Suc m) bs)))
        < (\<Sum>k = Suc m..<Suc m + length bs. g k)"
      by (intro Cons.IH [of j]) simp_all
    with split show ?thesis by (cases b) simp_all
  qed
qed simp

lemma sum_slot_widths: "(\<Sum>k = 0..<m. min page_size (n - k * page_size)) = min (m * page_size) n"
  by (induction m) (auto simp: min_def)

lemma have_entries_less:
  assumes "assembler_ok s" "\<not> is_complete s"
  shows "have_entries s < length (lens s)"
proof -
  let ?n = "length (lens s)"
  have len: "length (filled s) = div_ceil ?n page_size" using assms(1) by (simp add: assembler_ok_def)
  from assms obtain k where k: "k < length (filled s)" "\<not> filled s ! k"
    by (auto simp: is_complete_iff page_view_slot split: if_splits)
  then have "have_entries s < (\<Sum>k = 0..<0 + length (filled s). min page_size (?n - k * page_size))"
    unfolding have_entries_def
    using slot_start_in_range [of k ?n] len by (intro sum_filled_less [of k]) simp_all
  also have "\<dots> \<le> ?n" by (simp only: add_0 sum_slot_widths min.cobounded2)
  finally show ?thesis .
qed

lemma offer_all_length:
  "assembler_ok s \<Longrightarrow> length (lens (offer_all accepted s ps)) = length (lens s)"
proof (induction ps arbitrary: s)
  case (Cons p ps)
  then show ?case by (cases p) (auto split: option.split simp: accepted_ok)
qed simp

lemma two_chunks_new:
  "assembler_new (\<lambda>_. True) 2 = Ok \<lparr> lens = [0, 0], filled = [False], filled_pages = 0 \<rparr>"
  by (simp add: assembler_new_def div_ceil_def MAX_CHUNK_LENS_PER_FRAME_def MAX_RESOURCE_CHUNK_COUNT_def
      numeral_2_eq_2)

text \<open>The first page among \<open>ps\<close> that fits its slot of the array \<open>a\<close> is building.\<close>

definition first_fitting :: "assembler \<Rightarrow> (u64 \<times> u64 list) list \<Rightarrow> nat \<Rightarrow> u64 list option" where
  "first_fitting a ps slot =
     map_of (List.filter (\<lambda>(offset, page). page_fits a offset page) ps) (slot_offset slot)"

lemma fresh_offers:
  assumes "assembler_new reserve n = Ok a"
  shows "assembler_ok (offer_all accepted a ps)"
    and "length (lens (offer_all accepted a ps)) = n"
    and "length (filled (offer_all accepted a ps)) = div_ceil n page_size"
    and "page_view (offer_all accepted a ps) (slot_offset slot) = first_fitting a ps slot"
    and "is_complete (offer_all accepted a ps) \<longleftrightarrow> (\<forall>slot < div_ceil n page_size. first_fitting a ps slot \<noteq> None)"
proof -
  let ?s = "offer_all accepted a ps"
  note a = assembler_new_Ok [OF assms(1)]
  show ok: "assembler_ok ?s" using a(1) by (rule pages.offer_all_good)
  show n: "length (lens ?s) = n" using a(1,2) by (simp add: offer_all_length)
  show f: "length (filled ?s) = div_ceil n page_size" using ok n by (simp add: assembler_ok_def)
  show v: "page_view ?s (slot_offset slot) = first_fitting a ps slot" for slot
    by (simp add: pages.view_offer_all [OF a(1)] a(4) first_fitting_def)
  show "is_complete ?s \<longleftrightarrow> (\<forall>slot < div_ceil n page_size. first_fitting a ps slot \<noteq> None)"
    by (simp add: is_complete_iff [OF ok] f v)
qed

text \<open>The pages of the sender's split: one per slot, each fitting its slot.\<close>

lemma split_pages_slots:
  "split_chunk_lens_pages xs =
     map (\<lambda>slot. (slot_offset slot, take page_size (drop (slot * page_size) xs))) [0..<div_ceil (length xs) page_size]"
  by (rule nth_equalityI)
    (simp_all add: split_chunk_lens_pages_def slice_chunks_slots nth_enumerate_eq slot_offset_def)

lemma slot_offset_inject:
  assumes "n \<le> MAX_RESOURCE_CHUNK_COUNT" "i < div_ceil n page_size" "j < div_ceil n page_size"
  shows "slot_offset i = slot_offset j \<longleftrightarrow> i = j"
proof
  assume "slot_offset i = slot_offset j"
  then have "i * page_size = j * page_size"
    by (metis unat_slot_offset [OF assms(2,1)] unat_slot_offset [OF assms(3,1)])
  then show "i = j" by (simp only: mult_cancel2 page_size_pos simp_thms)
qed simp

lemma split_pages_distinct:
  assumes "length xs \<le> MAX_RESOURCE_CHUNK_COUNT"
  shows "distinct (map fst (split_chunk_lens_pages xs))"
  by (auto simp: split_pages_slots comp_def distinct_map inj_on_def slot_offset_inject [OF assms])

lemma split_pages_fit:
  assumes "length xs \<le> MAX_RESOURCE_CHUNK_COUNT" "(offset, page) \<in> set (split_chunk_lens_pages xs)"
    "length (lens a) = length xs"
  shows "page_fits a offset page"
proof -
  from assms(2) obtain slot where slot: "slot < div_ceil (length xs) page_size" "offset = slot_offset slot"
      "page = take page_size (drop (slot * page_size) xs)"
    by (auto simp: split_pages_slots)
  then show ?thesis
    using slot_start_in_range [OF slot(1)] unat_slot_offset [OF slot(1) assms(1)] assms(3)
    by (simp add: page_fits_def min.commute)
qed

text \<open>Some of the sender's pages, in any order: each is accepted, and the array is there exactly when none is missing.\<close>

lemma honest_pages:
  assumes "assembler_new reserve (length xs) = Ok a" "set ps \<subseteq> set (split_chunk_lens_pages xs)" "distinct (map fst ps)"
  shows "accept_all accepted a ps = Some (offer_all accepted a ps)"
    and "set ps = set (split_chunk_lens_pages xs) \<Longrightarrow> into_chunk_lens (offer_all accepted a ps) = Ok xs"
    and "into_chunk_lens (offer_all accepted a ps) = Ok ys \<Longrightarrow> ys = xs"
proof -
  let ?s = "offer_all accepted a ps"
  note a = assembler_new_Ok [OF assms(1)]
  have fits: "\<forall>(offset, page) \<in> set ps. page_fits a offset page \<and> page_view a offset = None"
    using split_pages_fit [OF a(3) _ a(2)] a(4) assms(2) by auto
  show "accept_all accepted a ps = Some ?s" using a(1) fits assms(3) by (rule pages.accept_all_fitting)
  have "List.filter (\<lambda>(offset, page). page_fits a offset page) ps = ps" using fits by (auto simp: filter_id_conv)
  then have first: "first_fitting a ps slot = map_of ps (slot_offset slot)" for slot by (simp add: first_fitting_def)
  have page: "page = take page_size (drop (slot * page_size) xs)"
    if "slot < div_ceil (length xs) page_size" "map_of ps (slot_offset slot) = Some page" for slot page
    using that assms(2) map_of_SomeD [OF that(2)] slot_offset_inject [OF a(3)] by (auto simp: split_pages_slots)
  have whole: "into_chunk_lens ?s = Ok xs" if c: "is_complete ?s"
  proof -
    have "page_view ?s (slot_offset slot) = Some (take page_size (drop (slot * page_size) xs))"
      if "slot < div_ceil (length xs) page_size" for slot
      using c page that by (auto simp: fresh_offers(4,5) [OF assms(1)] first)
    then have "map (\<lambda>slot. the (page_view ?s (slot_offset slot))) [0..<length (filled ?s)] = slice_chunks page_size xs"
      by (simp add: fresh_offers(3) [OF assms(1)] slice_chunks_slots)
    then show ?thesis
      using into_chunk_lens_complete [OF fresh_offers(1) [OF assms(1)] c] by (simp add: concat_slice_chunks)
  qed
  show "into_chunk_lens ?s = Ok xs" if "set ps = set (split_chunk_lens_pages xs)"
    using that assms(3) by (intro whole) (auto simp: fresh_offers(5) [OF assms(1)] first split_pages_slots map_of_eq_None_iff image_iff)
  show "ys = xs" if "into_chunk_lens ?s = Ok ys"
    using that whole by (auto simp: into_chunk_lens_def split: if_splits)
qed

section \<open>Properties\<close>

text \<open>C1.  Whatever pages a peer offers, in whatever order and however often, a reader that skips the refused
  ones obtains an array exactly when every slot was offered some page that fits it, and the array is then
  made of the FIRST fitting page of each slot: a duplicate, overlapping, misaligned, short or overlong page
  never changes what an honest page established.  Otherwise the assembler yields no array, and reports
  strictly fewer entries than the declared count.\<close>

theorem prologue_first_page_wins:
  assumes "assembler_new reserve n = Ok a"
  shows "into_chunk_lens (offer_all accepted a ps) =
      (if \<forall>slot < div_ceil n page_size. first_fitting a ps slot \<noteq> None
       then Ok (concat (map (\<lambda>slot. the (first_fitting a ps slot)) [0..<div_ceil n page_size]))
       else Err (Incomplete (have_entries (offer_all accepted a ps)) n))
    \<and> ((\<exists>slot < div_ceil n page_size. first_fitting a ps slot = None) \<longrightarrow> have_entries (offer_all accepted a ps) < n)"
proof -
  let ?s = "offer_all accepted a ps"
  note ok = fresh_offers(1) [OF assms, of ps] and n = fresh_offers(2) [OF assms, of ps]
    and f = fresh_offers(3) [OF assms, of ps] and v = fresh_offers(4) [OF assms, of ps]
    and complete = fresh_offers(5) [OF assms, of ps]
  show ?thesis
  proof (cases "is_complete ?s")
    case True
    with complete have all: "\<forall>slot < div_ceil n page_size. first_fitting a ps slot \<noteq> None" by simp
    have "into_chunk_lens ?s = Ok (concat (map (\<lambda>slot. the (first_fitting a ps slot)) [0..<div_ceil n page_size]))"
      using into_chunk_lens_complete [OF ok True] by (simp add: f v)
    with all show ?thesis by (metis (no_types, lifting))
  next
    case False
    with complete have "\<not> (\<forall>slot < div_ceil n page_size. first_fitting a ps slot \<noteq> None)" by simp
    moreover have "into_chunk_lens ?s = Err (Incomplete (have_entries ?s) n)"
      using False n by (simp add: into_chunk_lens_def)
    moreover have "have_entries ?s < n" using have_entries_less [OF ok False] n by simp
    ultimately show ?thesis by simp
  qed
qed

theorem prologue_first_page_wins_witness:
  "into_chunk_lens (offer_all accepted \<lparr> lens = [0, 0], filled = [False], filled_pages = 0 \<rparr>
     [(0, [9]), (0, [5, 7]), (1, [8]), (0, [6, 6])]) = Ok [5, 7]"
proof -
  let ?a = "\<lparr> lens = [0, 0], filled = [False], filled_pages = 0 \<rparr>" and ?ps = "[(0, [9]), (0, [5, 7]), (1, [8]), (0, [6, 6])]"
  have "first_fitting ?a ?ps 0 = Some [5, 7]"
    by (simp add: first_fitting_def page_fits_def slot_offset_def MAX_CHUNK_LENS_PER_FRAME_def)
  moreover have "div_ceil 2 page_size = 1" by (simp add: div_ceil_def MAX_CHUNK_LENS_PER_FRAME_def)
  ultimately show ?thesis using prologue_first_page_wins [OF two_chunks_new, of ?ps] by simp
qed

text \<open>The round trip of the paged prologue: the pages the sender's split produces, delivered in ANY order,
  are all accepted by a fresh assembler of that count, and the assembler then yields exactly the sender's
  array.\<close>

theorem prologue_roundtrip:
  assumes "assembler_new reserve (length xs) = Ok a" "mset ps = mset (split_chunk_lens_pages xs)"
  shows "\<exists>s. accept_all accepted a ps = Some s \<and> into_chunk_lens s = Ok xs"
proof -
  note a = assembler_new_Ok [OF assms(1)]
  have set: "set ps = set (split_chunk_lens_pages xs)" using assms(2) by (rule mset_eq_setD)
  have "mset (map fst ps) = mset (map fst (split_chunk_lens_pages xs))" using assms(2) by (simp add: mset_map)
  then have "distinct (map fst ps)"
    using split_pages_distinct [OF a(3)] mset_eq_imp_distinct_iff by blast
  with honest_pages [OF assms(1), of ps] set show ?thesis by blast
qed

theorem prologue_roundtrip_witness:
  "\<exists>s. accept_all accepted \<lparr> lens = [0, 0], filled = [False], filled_pages = 0 \<rparr> [(0, [5, 7])] = Some s \<and>
     into_chunk_lens s = Ok [5, 7]"
proof (rule prologue_roundtrip)
  show "assembler_new (\<lambda>_. True) (length [5, 7 :: u64]) = Ok \<lparr> lens = [0, 0], filled = [False], filled_pages = 0 \<rparr>"
    using two_chunks_new by (simp add: numeral_2_eq_2)
  show "mset [(0, [5, 7])] = mset (split_chunk_lens_pages [5, 7])"
    by (simp add: split_pages_slots div_ceil_def MAX_CHUNK_LENS_PER_FRAME_def slot_offset_def)
qed

text \<open>\<open>accept_page\<close> never panics and keeps the representation invariant; it answers \<open>Ok\<close> exactly for a
  page that fits a slot not yet filled; an \<open>Err\<close> leaves the assembler exactly as it was, and an \<open>Ok\<close> sets
  that one slot and no other.\<close>

theorem accept_page_correct:
  assumes "assembler_ok s"
  shows "\<exists>r t. accept_page s offset page = Some (r, t) \<and> assembler_ok t
    \<and> (r = Ok () \<longleftrightarrow> page_fits s offset page \<and> page_view s offset = None)
    \<and> (r \<noteq> Ok () \<longrightarrow> t = s)
    \<and> (r = Ok () \<longrightarrow> page_view t = (page_view s)(offset \<mapsto> page))"
proof (cases "accepted s offset page")
  case None
  then have no: "\<not> (page_fits s offset page \<and> page_view s offset = None)"
    using pages.accept_None [OF assms] by blast
  then have "\<not> page_fits s offset page \<or> filled s ! (unat offset div page_size)"
    by (cases "filled s ! (unat offset div page_size)") (simp_all add: page_fits_def page_view_def)
  with accept_page_refused [OF assms] obtain e where "accept_page s offset page = Some (Err e, s)"
    by blast
  moreover note no
  ultimately show ?thesis using assms by auto
next
  case (Some t)
  then obtain "accept_page s offset page = Some (Ok (), t)"
    by (auto simp: accepted_def split: option.splits sum.splits)
  moreover have "page_fits s offset page \<and> page_view s offset = None"
    using Some pages.accept_None [OF assms, of offset page] by auto
  ultimately show ?thesis using pages.accept_good [OF assms Some] pages.accept_view [OF assms Some] by simp
qed

theorem accept_page_correct_witness:
  "\<exists>t. accept_page \<lparr> lens = [0, 0], filled = [False], filled_pages = 0 \<rparr> 0 [5, 7] = Some (Ok (), t)"
proof -
  let ?a = "\<lparr> lens = [0, 0], filled = [False], filled_pages = 0 \<rparr>"
  have "page_fits ?a 0 [5, 7]" "page_view ?a 0 = None"
    by (simp_all add: page_fits_def page_view_def MAX_CHUNK_LENS_PER_FRAME_def)
  with accept_page_correct [OF assembler_new_Ok(1) [OF two_chunks_new], of 0 "[5, 7]"]
  show ?thesis by auto
qed

end
