(* ===== verification/Traversal.thy ===== *)
theory Traversal imports Prelude begin

text \<open>
  The vocabulary of the traversal ladder: addresses of \<open>std::net\<close>, the technique tag
  \<open>TraversalKind\<close> and its rank, \<open>MethodOutcome\<close> (\<open>src/src/method/mod.rs\<close>), \<open>MethodError\<close> and
  \<open>NatError\<close> (\<open>src/src/error.rs\<close>), \<open>PeerTarget\<close> and \<open>PeerConnection\<close> (\<open>src/src/peer.rs\<close>), and the
  methods that need no gateway protocol: direct, hole punch and relayed.

  The locale \<open>traversal_method\<close> is the contract of the \<open>TraversalMethod\<close> trait; each method of the
  crate interprets it.
\<close>

section \<open>Addresses\<close>

datatype ip_addr = IpV4 "32 word" | IpV6 "128 word"

datatype socket_addr = SocketAddr (sa_ip: ip_addr) (sa_port: u16)

fun is_ipv4 :: "socket_addr \<Rightarrow> bool" where
  "is_ipv4 (SocketAddr (IpV4 _) _) = True"
| "is_ipv4 (SocketAddr (IpV6 _) _) = False"

text \<open>The 32-byte peer identity of the TLS layer.\<close>

type_synonym peer_id = bytes

section \<open>Kinds, outcomes, errors\<close>

datatype traversal_kind = Direct | Upnp | NatPmp | Pcp | HolePunch | Relayed

fun rank :: "traversal_kind \<Rightarrow> u8" where
  "rank Direct = 0"
| "rank Upnp = 1"
| "rank NatPmp = 2"
| "rank Pcp = 3"
| "rank HolePunch = 4"
| "rank Relayed = 5"

lemma rank_inject [simp]: "rank k = rank l \<longleftrightarrow> k = l"
  by (cases k; cases l) auto

lemma rank_relayed_last: "rank k \<le> rank Relayed" "k \<noteq> Relayed \<Longrightarrow> rank k < rank Relayed"
  by (cases k; simp)+

instantiation traversal_kind :: linorder
begin

definition less_eq_traversal_kind :: "traversal_kind \<Rightarrow> traversal_kind \<Rightarrow> bool" where
  "less_eq_traversal_kind k l \<longleftrightarrow> rank k \<le> rank l"

definition less_traversal_kind :: "traversal_kind \<Rightarrow> traversal_kind \<Rightarrow> bool" where
  "less_traversal_kind k l \<longleftrightarrow> rank k < rank l"

instance
  by standard (auto simp: less_eq_traversal_kind_def less_traversal_kind_def simp flip: rank_inject)

end

fun show_kind :: "traversal_kind \<Rightarrow> string" where
  "show_kind Direct = ''Direct''"
| "show_kind Upnp = ''Upnp''"
| "show_kind NatPmp = ''NatPmp''"
| "show_kind Pcp = ''Pcp''"
| "show_kind HolePunch = ''HolePunch''"
| "show_kind Relayed = ''Relayed''"

record method_outcome =
  mo_kind :: traversal_kind
  dial_addrs :: "socket_addr list"

definition outcome_single :: "traversal_kind \<Rightarrow> socket_addr \<Rightarrow> method_outcome" where
  "outcome_single kind dial_addr = \<lparr> mo_kind = kind, dial_addrs = [dial_addr] \<rparr>"

definition outcome_candidates :: "traversal_kind \<Rightarrow> socket_addr list \<Rightarrow> method_outcome" where
  "outcome_candidates kind addrs = \<lparr> mo_kind = kind, dial_addrs = addrs \<rparr>"

definition outcome_dial_addr :: "method_outcome \<Rightarrow> socket_addr option" where
  "outcome_dial_addr o' = (case dial_addrs o' of [] \<Rightarrow> None | a # _ \<Rightarrow> Some a)"

record method_error =
  me_kind :: traversal_kind
  reason :: string
  timed_out :: bool

definition error_failed :: "traversal_kind \<Rightarrow> string \<Rightarrow> method_error" where
  "error_failed kind r = \<lparr> me_kind = kind, reason = r, timed_out = False \<rparr>"

definition error_timeout :: "traversal_kind \<Rightarrow> method_error" where
  "error_timeout kind = \<lparr> me_kind = kind, reason = show_kind kind @ '' timed out'', timed_out = True \<rparr>"

datatype nat_error =
    AllMethodsFailed "method_error list"
  | NoMethodsEnabled
  | PeerIdentityMismatch string string
  | InvalidConfig string

definition RESOURCE_UNAVAILABLE :: int where "RESOURCE_UNAVAILABLE = - 32004"
definition PEER_UNREACHABLE :: int where "PEER_UNREACHABLE = - 32006"
definition RANGE_NOT_SATISFIABLE :: int where "RANGE_NOT_SATISFIABLE = - 32007"

definition rpc_error_code :: "nat_error \<Rightarrow> int" where
  "rpc_error_code e = PEER_UNREACHABLE"

lemma outcome_simps [simp]:
  "mo_kind (outcome_single k a) = k" "dial_addrs (outcome_single k a) = [a]"
  "mo_kind (outcome_candidates k as) = k" "dial_addrs (outcome_candidates k as) = as"
  by (simp_all add: outcome_single_def outcome_candidates_def)

lemma error_simps [simp]:
  "me_kind (error_failed k r) = k" "reason (error_failed k r) = r" "\<not> timed_out (error_failed k r)"
  "me_kind (error_timeout k) = k" "timed_out (error_timeout k)"
  by (simp_all add: error_failed_def error_timeout_def)

section \<open>Peers\<close>

record peer_target =
  pt_peer_id :: peer_id
  pt_direct_addrs :: "socket_addr list"
  pt_network_id :: string

definition with_addrs :: "peer_id \<Rightarrow> socket_addr list \<Rightarrow> string \<Rightarrow> peer_target" where
  "with_addrs pid addrs net = \<lparr> pt_peer_id = pid, pt_direct_addrs = addrs, pt_network_id = net \<rparr>"

definition with_addr :: "peer_id \<Rightarrow> socket_addr \<Rightarrow> string \<Rightarrow> peer_target" where
  "with_addr pid addr net = with_addrs pid [addr] net"

definition relay_only :: "peer_id \<Rightarrow> string \<Rightarrow> peer_target" where
  "relay_only pid net = \<lparr> pt_peer_id = pid, pt_direct_addrs = [], pt_network_id = net \<rparr>"

definition direct_addr :: "peer_target \<Rightarrow> socket_addr option" where
  "direct_addr p = (case pt_direct_addrs p of [] \<Rightarrow> None | a # _ \<Rightarrow> Some a)"

definition set_direct_addrs :: "peer_target \<Rightarrow> socket_addr list \<Rightarrow> peer_target" where
  "set_direct_addrs p addrs = p\<lparr> pt_direct_addrs := addrs \<rparr>"

text \<open>An established connection; \<open>'s\<close> is the multiplexed session.\<close>

record 's peer_connection =
  pc_peer_id :: peer_id
  pc_method :: traversal_kind
  pc_remote_addr :: socket_addr
  pc_peer_bls_pub :: "bytes option"
  pc_session :: 's

section \<open>The method interface\<close>

record traversal_method =
  tm_kind :: traversal_kind
  tm_attempt :: "peer_target \<Rightarrow> (method_error, method_outcome) result future"

locale traversal_method =
  fixes kind :: traversal_kind
    and attempt :: "peer_target \<Rightarrow> (method_error, method_outcome) result future"
  assumes attempt_err_kind: "attempt p = Some (d, Inl e) \<Longrightarrow> me_kind e = kind"
    and attempt_ok_kind: "attempt p = Some (d, Inr out) \<Longrightarrow> mo_kind out = kind"
    and attempt_ok_addrs: "attempt p = Some (d, Inr out) \<Longrightarrow> dial_addrs out \<noteq> []"
begin

lemma attempt_tagged:
  "attempt p = Some (d, r) \<Longrightarrow> (case r of Inl e \<Rightarrow> me_kind e | Inr out \<Rightarrow> mo_kind out) = kind"
  by (auto split: sum.split dest: attempt_err_kind attempt_ok_kind)

lemma attempt_dial_addr: "attempt p = Some (d, Inr out) \<Longrightarrow> \<exists>a. outcome_dial_addr out = Some a"
  by (auto dest!: attempt_ok_addrs simp: outcome_dial_addr_def neq_Nil_conv)

end

text \<open>The interface as a predicate on method objects.\<close>

definition honest_method :: "traversal_method \<Rightarrow> bool" where
  "honest_method m \<longleftrightarrow> traversal_method (tm_kind m) (tm_attempt m)"

section \<open>Direct\<close>

definition direct_attempt :: "peer_target \<Rightarrow> (method_error, method_outcome) result future" where
  "direct_attempt peer =
    (let addrs = pt_direct_addrs peer in
     if addrs = [] then ready (Err (error_failed Direct ''peer has no known direct address''))
     else ready (Ok (outcome_candidates Direct addrs)))"

definition direct_method :: traversal_method where
  "direct_method = \<lparr> tm_kind = Direct, tm_attempt = direct_attempt \<rparr>"

interpretation direct: traversal_method Direct direct_attempt
  by unfold_locales (auto simp: direct_attempt_def Let_def split: if_splits)

lemma direct_method_honest: "honest_method direct_method"
  by (simp add: honest_method_def direct_method_def direct.traversal_method_axioms)

section \<open>Hole punch\<close>

text \<open>\<open>to_hex\<close> is the identity type's hexadecimal rendering; \<open>coordinate\<close> is the relay's RLY-007
  exchange, given target, network and this node's reflexive address.\<close>

type_synonym coordinator = "string \<Rightarrow> string \<Rightarrow> socket_addr \<Rightarrow> (string, socket_addr) result future"

definition hole_punch_attempt ::
  "(peer_id \<Rightarrow> string) \<Rightarrow> coordinator \<Rightarrow> socket_addr \<Rightarrow> peer_target \<Rightarrow> (method_error, method_outcome) result future" where
  "hole_punch_attempt to_hex coordinate my_external_addr peer =
    await_ok (map_future (map_err (error_failed HolePunch))
        (coordinate (to_hex (pt_peer_id peer)) (pt_network_id peer) my_external_addr))
      (\<lambda>peer_addr. ready (Ok (outcome_single HolePunch peer_addr)))"

definition hole_punch_method :: "(peer_id \<Rightarrow> string) \<Rightarrow> coordinator \<Rightarrow> socket_addr \<Rightarrow> traversal_method" where
  "hole_punch_method to_hex coordinate my_external_addr =
     \<lparr> tm_kind = HolePunch, tm_attempt = hole_punch_attempt to_hex coordinate my_external_addr \<rparr>"

interpretation hole_punch: traversal_method HolePunch "hole_punch_attempt to_hex coordinate my_addr"
  by unfold_locales (auto simp: hole_punch_attempt_def await_ok_eq_Ok await_ok_eq_Err)

lemma hole_punch_method_honest: "honest_method (hole_punch_method to_hex coordinate my_addr)"
  by (simp add: honest_method_def hole_punch_method_def hole_punch.traversal_method_axioms)

section \<open>Relayed\<close>

text \<open>What the ladder needs of a \<open>RelayedDialer\<close>: its endpoint and whether a reservation is held.\<close>

record relayed_dialer =
  rd_relay_endpoint :: socket_addr
  rd_is_ready :: bool

definition relayed_dial_attempt :: "'z relayed_dialer_scheme \<Rightarrow> peer_target \<Rightarrow> (method_error, method_outcome) result future" where
  "relayed_dial_attempt dialer peer =
    (if \<not> rd_is_ready dialer
     then ready (Err (error_failed Relayed
       (''relay reservation not connected '' @ em_dash @ '' relayed transport unavailable'')))
     else ready (Ok (outcome_single Relayed (rd_relay_endpoint dialer))))"

definition relayed_dial_method :: "'z relayed_dialer_scheme \<Rightarrow> traversal_method" where
  "relayed_dial_method dialer = \<lparr> tm_kind = Relayed, tm_attempt = relayed_dial_attempt dialer \<rparr>"

interpretation relayed_dial: traversal_method Relayed "relayed_dial_attempt dialer"
  by unfold_locales (auto simp: relayed_dial_attempt_def split: if_splits)

lemma relayed_dial_method_honest: "honest_method (relayed_dial_method dialer)"
  by (simp add: honest_method_def relayed_dial_method_def relayed_dial.traversal_method_axioms)

text \<open>The transport variant asks \<open>open_relayed\<close> for the relay's address.\<close>

definition relayed_transport_attempt ::
  "(peer_id \<Rightarrow> string) \<Rightarrow> (string \<Rightarrow> string \<Rightarrow> (string, socket_addr) result future) \<Rightarrow>
   peer_target \<Rightarrow> (method_error, method_outcome) result future" where
  "relayed_transport_attempt to_hex open_relayed peer =
    await_ok (map_future (map_err (error_failed Relayed)) (open_relayed (to_hex (pt_peer_id peer)) (pt_network_id peer)))
      (\<lambda>relay_addr. ready (Ok (outcome_single Relayed relay_addr)))"

interpretation relayed_transport: traversal_method Relayed "relayed_transport_attempt to_hex open_relayed"
  by unfold_locales (auto simp: relayed_transport_attempt_def await_ok_eq_Ok await_ok_eq_Err)

end
