(* ===== verification/Nat_Pmp.thy ===== *)
theory Nat_Pmp imports Traversal begin

text \<open>
  The NAT-PMP method (\<open>src/src/method/natpmp.rs\<close>): the two datagrams of RFC 6886, the one-reply
  transaction with the gateway, and the traversal method built on them.

  A UDP socket is the record \<open>udp_env\<close>: whether binding and sending succeed, and the datagrams (or
  receive errors) that arrive after a payload was sent, each with its arrival time.
\<close>

section \<open>Slices of a datagram\<close>

text \<open>\<open>msg[a..b]\<close>, used only where the source has checked the length.\<close>

definition byte_slice :: "'a list \<Rightarrow> nat \<Rightarrow> nat \<Rightarrow> 'a list" where
  "byte_slice msg a b = take (b - a) (drop a msg)"

lemma length_slice [simp]: "a \<le> b \<Longrightarrow> b \<le> length msg \<Longrightarrow> length (byte_slice msg a b) = b - a"
  by (simp add: byte_slice_def)

lemma slice_append_left: "b \<le> length xs \<Longrightarrow> byte_slice (xs @ ys) a b = byte_slice xs a b"
  by (simp add: byte_slice_def)

lemma slice_append_right: "length xs \<le> a \<Longrightarrow> byte_slice (xs @ ys) a b = byte_slice ys (a - length xs) (b - length xs)"
  by (simp add: byte_slice_def diff_diff_eq2)

lemma slice_all: "byte_slice xs 0 (length xs) = xs"
  by (simp add: byte_slice_def)

lemma nth_slice_2: "k + 2 \<le> length xs \<Longrightarrow> [xs ! k, xs ! (k + 1)] = byte_slice xs k (k + 2)"
  by (intro nth_equalityI) (auto simp: byte_slice_def less_Suc_eq numeral_2_eq_2)

lemma nth_slice_4:
  "k + 4 \<le> length xs \<Longrightarrow> [xs ! k, xs ! (k + 1), xs ! (k + 2), xs ! (k + 3)] = byte_slice xs k (k + 4)"
  by (intro nth_equalityI) (auto simp: byte_slice_def less_Suc_eq numeral_eq_Suc)

section \<open>Constants\<close>

definition NATPMP_PORT :: u16 where "NATPMP_PORT = 5351"
definition NATPMP_VERSION :: u8 where "NATPMP_VERSION = 0"
definition OP_EXTERNAL_ADDRESS :: u8 where "OP_EXTERNAL_ADDRESS = 0"
definition OP_MAP_UDP :: u8 where "OP_MAP_UDP = 1"
definition OP_MAP_TCP :: u8 where "OP_MAP_TCP = 2"
definition RESPONSE_FLAG :: u8 where "RESPONSE_FLAG = 0x80"
definition NATPMP_RESULT_SUCCESS :: u16 where "NATPMP_RESULT_SUCCESS = 0"

lemmas natpmp_constants = NATPMP_PORT_def NATPMP_VERSION_def OP_EXTERNAL_ADDRESS_def OP_MAP_UDP_def
  OP_MAP_TCP_def RESPONSE_FLAG_def NATPMP_RESULT_SUCCESS_def

section \<open>Requests\<close>

definition encode_external_address_request :: bytes where
  "encode_external_address_request = [NATPMP_VERSION, OP_EXTERNAL_ADDRESS]"

text \<open>\<open>buf[a..b].copy_from_slice(ys)\<close> on a fixed buffer, where the lengths agree.\<close>

definition write_at :: "'a list \<Rightarrow> nat \<Rightarrow> 'a list \<Rightarrow> 'a list" where
  "write_at buf a ys = take a buf @ ys @ drop (a + length ys) buf"

definition natpmp_encode_map_request :: "bool \<Rightarrow> u16 \<Rightarrow> u16 \<Rightarrow> u32 \<Rightarrow> bytes" where
  "natpmp_encode_map_request tcp internal_port suggested_external_port lifetime_secs =
    (let opcode = if tcp then OP_MAP_TCP else OP_MAP_UDP;
         buf = replicate 12 0;
         buf = buf[0 := NATPMP_VERSION];
         buf = buf[1 := opcode];
         buf = write_at buf 4 (be_bytes 2 internal_port);
         buf = write_at buf 6 (be_bytes 2 suggested_external_port)
     in write_at buf 8 (be_bytes 4 lifetime_secs))"

section \<open>Responses\<close>

datatype nat_pmp_error =
    NpTruncated
  | NpUnexpectedOpcode u8
  | NpResultCode u16
  | NpIo string
  | NpTimeout

fun nat_pmp_error_to_string :: "nat_pmp_error \<Rightarrow> string" where
  "nat_pmp_error_to_string NpTruncated = ''NAT-PMP response truncated''"
| "nat_pmp_error_to_string (NpUnexpectedOpcode o') = ''unexpected NAT-PMP opcode: '' @ show_nat (unat o')"
| "nat_pmp_error_to_string (NpResultCode c) = ''NAT-PMP result code '' @ show_nat (unat c)"
| "nat_pmp_error_to_string (NpIo e) = ''NAT-PMP io: '' @ e"
| "nat_pmp_error_to_string NpTimeout = ''NAT-PMP request timed out''"

record external_address_response =
  seconds_since_epoch :: u32
  external_ip :: "32 word"

definition parse_external_address_response :: "bytes \<Rightarrow> (nat_pmp_error, external_address_response) result" where
  "parse_external_address_response msg =
    (if length msg < 12 then Err NpTruncated
     else if msg ! 1 \<noteq> OP_EXTERNAL_ADDRESS + RESPONSE_FLAG then Err (NpUnexpectedOpcode (msg ! 1))
     else
       let result = (from_be [msg ! 2, msg ! 3] :: u16) in
       if result \<noteq> NATPMP_RESULT_SUCCESS then Err (NpResultCode result)
       else
         let seconds = from_be [msg ! 4, msg ! 5, msg ! 6, msg ! 7];
             ip = from_be [msg ! 8, msg ! 9, msg ! 10, msg ! 11]
         in Ok \<lparr> seconds_since_epoch = seconds, external_ip = ip \<rparr>)"

record natpmp_map_response =
  np_internal_port :: u16
  np_external_port :: u16
  np_lifetime_secs :: u32

definition natpmp_parse_map_response :: "bytes \<Rightarrow> bool \<Rightarrow> (nat_pmp_error, natpmp_map_response) result" where
  "natpmp_parse_map_response msg tcp =
    (if length msg < 16 then Err NpTruncated
     else
       let expected_op = (if tcp then OP_MAP_TCP else OP_MAP_UDP) + RESPONSE_FLAG in
       if msg ! 1 \<noteq> expected_op then Err (NpUnexpectedOpcode (msg ! 1))
       else
         let result = (from_be [msg ! 2, msg ! 3] :: u16) in
         if result \<noteq> NATPMP_RESULT_SUCCESS then Err (NpResultCode result)
         else
           let internal_port = from_be [msg ! 8, msg ! 9];
               external_port = from_be [msg ! 10, msg ! 11];
               lifetime = from_be [msg ! 12, msg ! 13, msg ! 14, msg ! 15]
           in Ok \<lparr> np_internal_port = internal_port, np_external_port = external_port, np_lifetime_secs = lifetime \<rparr>)"

section \<open>The transaction and the method\<close>

record udp_env =
  udp_bind :: "(string, unit) result"
  udp_send :: "bytes \<Rightarrow> socket_addr \<Rightarrow> (string, unit) result"
  udp_arrivals :: "bytes \<Rightarrow> (nat \<times> (string, bytes \<times> socket_addr) result) list"

record nat_pmp_method =
  np_gateway :: socket_addr
  np_local_port :: u16
  np_lifetime :: u32
  np_timeout :: nat

definition nat_pmp_new :: "32 word \<Rightarrow> u16 \<Rightarrow> nat_pmp_method" where
  "nat_pmp_new gateway local_port =
     \<lparr> np_gateway = SocketAddr (IpV4 gateway) NATPMP_PORT, np_local_port = local_port, np_lifetime = 7200, np_timeout = 1000 \<rparr>"

definition natpmp_transact :: "bool \<Rightarrow> udp_env \<Rightarrow> nat_pmp_method \<Rightarrow> bytes \<Rightarrow> (nat_pmp_error, bytes) result future" where
  "natpmp_transact tie env self payload =
    (case udp_bind env of Inl e \<Rightarrow> ready (Err (NpIo e)) | Inr _ \<Rightarrow>
     (case udp_send env payload (np_gateway self) of Inl e \<Rightarrow> ready (Err (NpIo e)) | Inr _ \<Rightarrow>
       let recv_from = (case udp_arrivals env payload of [] \<Rightarrow> None | a # _ \<Rightarrow> Some a) in
       (case timeout tie (np_timeout self) recv_from of
          (d, Some (Inr (bs, _))) \<Rightarrow> Some (d, Ok (take 32 bs))
        | (d, Some (Inl e)) \<Rightarrow> Some (d, Err (NpIo e))
        | (d, None) \<Rightarrow> Some (d, Err NpTimeout))))"

fun natpmp_to_method_error :: "nat_pmp_error \<Rightarrow> method_error" where
  "natpmp_to_method_error NpTimeout = error_timeout NatPmp"
| "natpmp_to_method_error other = error_failed NatPmp (nat_pmp_error_to_string other)"

definition natpmp_attempt ::
  "bool \<Rightarrow> udp_env \<Rightarrow> nat_pmp_method \<Rightarrow> peer_target \<Rightarrow> (method_error, method_outcome) result future" where
  "natpmp_attempt tie env self peer =
    (let addrs = pt_direct_addrs peer in
     if addrs = [] then ready (Err (error_failed NatPmp ''peer has no address to dial after mapping''))
     else
       await_ok (map_future (map_err natpmp_to_method_error) (natpmp_transact tie env self encode_external_address_request))
         (\<lambda>resp. await_ok (ready (map_err natpmp_to_method_error (parse_external_address_response resp)))
         (\<lambda>_. let map = natpmp_encode_map_request False (np_local_port self) (np_local_port self) (np_lifetime self) in
           await_ok (map_future (map_err natpmp_to_method_error) (natpmp_transact tie env self map))
         (\<lambda>resp. await_ok (ready (map_err natpmp_to_method_error (natpmp_parse_map_response resp False)))
         (\<lambda>_. ready (Ok (outcome_candidates NatPmp addrs)))))))"

definition natpmp_method :: "bool \<Rightarrow> udp_env \<Rightarrow> nat_pmp_method \<Rightarrow> traversal_method" where
  "natpmp_method tie env self = \<lparr> tm_kind = NatPmp, tm_attempt = natpmp_attempt tie env self \<rparr>"

definition ipv4_gateway :: "socket_addr \<Rightarrow> 32 word option" where
  "ipv4_gateway addr = (case sa_ip addr of IpV4 v4 \<Rightarrow> Some v4 | IpV6 _ \<Rightarrow> None)"

lemma natpmp_to_method_error_kind [simp]: "me_kind (natpmp_to_method_error e) = NatPmp"
  by (cases e) simp_all

lemma natpmp_to_method_error_timed_out [simp]: "timed_out (natpmp_to_method_error e) \<longleftrightarrow> e = NpTimeout"
  by (cases e) simp_all

interpretation natpmp: traversal_method NatPmp "natpmp_attempt tie env self"
  by unfold_locales
    (auto simp: natpmp_attempt_def Let_def await_ok_eq_Ok await_ok_eq_Err split: if_splits)

lemma natpmp_method_honest: "honest_method (natpmp_method tie env self)"
  by (simp add: honest_method_def natpmp_method_def natpmp.traversal_method_axioms)

section \<open>Layout of the datagrams\<close>

text \<open>The response layouts of RFC 6886, as the gateway writes them.\<close>

definition external_address_wire :: "u8 \<Rightarrow> u16 \<Rightarrow> u32 \<Rightarrow> 32 word \<Rightarrow> bytes" where
  "external_address_wire v result seconds ip = [v, 128] @ be_bytes 2 result @ be_bytes 4 seconds @ be_bytes 4 ip"

definition map_response_wire :: "u8 \<Rightarrow> bool \<Rightarrow> u16 \<Rightarrow> u32 \<Rightarrow> natpmp_map_response \<Rightarrow> bytes" where
  "map_response_wire v tcp result seconds r =
     [v, if tcp then 130 else 129] @ be_bytes 2 result @ be_bytes 4 seconds @
     be_bytes 2 (np_internal_port r) @ be_bytes 2 (np_external_port r) @ be_bytes 4 (np_lifetime_secs r)"

lemma natpmp_encode_map_request_eq:
  "natpmp_encode_map_request tcp ip ep lt =
     [0, if tcp then 2 else 1, 0, 0] @ be_bytes 2 ip @ be_bytes 2 ep @ be_bytes 4 lt"
  by (simp add: natpmp_encode_map_request_def Let_def write_at_def natpmp_constants numeral_eq_Suc)

lemma parse_map_response_slices:
  "16 \<le> length msg \<Longrightarrow> natpmp_parse_map_response msg tcp =
    (if msg ! 1 \<noteq> (if tcp then 130 else 129) then Err (NpUnexpectedOpcode (msg ! 1))
     else if from_be (byte_slice msg 2 4) \<noteq> (0 :: u16) then Err (NpResultCode (from_be (byte_slice msg 2 4)))
     else Ok \<lparr> np_internal_port = from_be (byte_slice msg 8 10), np_external_port = from_be (byte_slice msg 10 12),
               np_lifetime_secs = from_be (byte_slice msg 12 16) \<rparr>)"
  using nth_slice_2 [of 2 msg] nth_slice_2 [of 8 msg] nth_slice_2 [of 10 msg] nth_slice_4 [of 12 msg]
  by (simp add: natpmp_parse_map_response_def Let_def natpmp_constants)

lemma map_response_wire_slices:
  assumes "msg = map_response_wire v tcp result seconds r @ rest"
  shows "16 \<le> length msg" "msg ! 1 = (if tcp then 130 else 129)" "byte_slice msg 2 4 = be_bytes 2 result"
    "byte_slice msg 8 10 = be_bytes 2 (np_internal_port r)" "byte_slice msg 10 12 = be_bytes 2 (np_external_port r)"
    "byte_slice msg 12 16 = be_bytes 4 (np_lifetime_secs r)"
  by (simp_all add: assms map_response_wire_def byte_slice_def numeral_eq_Suc)

lemma slices_map_response_wire:
  assumes "16 \<le> length msg" "msg ! 1 = (if tcp then 130 else 129)" "byte_slice msg 2 4 = be_bytes 2 result"
    "byte_slice msg 8 10 = be_bytes 2 (np_internal_port r)" "byte_slice msg 10 12 = be_bytes 2 (np_external_port r)"
    "byte_slice msg 12 16 = be_bytes 4 (np_lifetime_secs r)"
  shows "msg = map_response_wire (msg ! 0) tcp result (from_be (byte_slice msg 4 8)) r @ drop 16 msg"
proof -
  have "msg = byte_slice msg 0 2 @ byte_slice msg 2 4 @ byte_slice msg 4 8 @ byte_slice msg 8 10 @ byte_slice msg 10 12 @ byte_slice msg 12 16 @ drop 16 msg"
  proof -
    have "byte_slice msg a b @ drop b msg = drop a msg" if "a \<le> b" for a b
      using that by (simp add: byte_slice_def) (metis append_take_drop_id drop_drop le_add_diff_inverse2)
    from this [of 0 2] this [of 2 4] this [of 4 8] this [of 8 10] this [of 10 12] this [of 12 16]
    show ?thesis by simp
  qed
  moreover have "byte_slice msg 0 2 = [msg ! 0, msg ! 1]" using assms(1) nth_slice_2 [of 0 msg] by (simp add: numeral_2_eq_2)
  moreover have "be_bytes 4 (from_be (byte_slice msg 4 8) :: u32) = byte_slice msg 4 8"
    using assms(1) by (intro be32.enc_dec) simp
  ultimately show ?thesis using assms by (simp add: map_response_wire_def)
qed

section \<open>Properties\<close>

text \<open>\<open>parse_map_response\<close> accepts exactly the datagrams of RFC 6886's map-response layout (opcode of the
  asked protocol, result 0, any version byte, any trailing bytes), and returns the fields the gateway
  wrote; a response of that layout with another result code yields that code as the error.\<close>

theorem natpmp_map_response_roundtrip:
  "(natpmp_parse_map_response msg tcp = Ok r \<longleftrightarrow>
     (\<exists>v seconds rest. msg = map_response_wire v tcp 0 seconds r @ rest))
   \<and> natpmp_parse_map_response (map_response_wire v tcp result seconds r @ rest) tcp =
       (if result = 0 then Ok r else Err (NpResultCode result))"
proof (intro conjI iffI)
  assume ok: "natpmp_parse_map_response msg tcp = Ok r"
  then have len: "16 \<le> length msg" by (auto simp: natpmp_parse_map_response_def not_less split: if_splits)
  with ok have f: "msg ! 1 = (if tcp then 130 else 129)" "from_be (byte_slice msg 2 4) = (0 :: u16)"
    "from_be (byte_slice msg 8 10) = np_internal_port r" "from_be (byte_slice msg 10 12) = np_external_port r"
    "from_be (byte_slice msg 12 16) = np_lifetime_secs r"
    by (auto simp: parse_map_response_slices split: if_splits)
  have "be_bytes 2 (0 :: u16) = byte_slice msg 2 4" "be_bytes 2 (np_internal_port r) = byte_slice msg 8 10"
    "be_bytes 2 (np_external_port r) = byte_slice msg 10 12" "be_bytes 4 (np_lifetime_secs r) = byte_slice msg 12 16"
    using len by (simp_all only: f(2-5) [symmetric] be16.enc_dec be32.enc_dec length_slice)
  then show "\<exists>v seconds rest. msg = map_response_wire v tcp 0 seconds r @ rest"
    using slices_map_response_wire [OF len f(1)] by metis
next
  have wire: "natpmp_parse_map_response (map_response_wire v tcp result seconds r @ rest) tcp =
       (if result = 0 then Ok r else Err (NpResultCode result))" for v result seconds rest
  proof -
    define w where "w = map_response_wire v tcp result seconds r @ rest"
    from map_response_wire_slices [OF w_def]
    have "natpmp_parse_map_response w tcp = (if result = 0 then Ok r else Err (NpResultCode result))"
      by (simp add: parse_map_response_slices be16.dec_enc be32.dec_enc)
    then show ?thesis by (simp add: w_def)
  qed
  then show "natpmp_parse_map_response (map_response_wire v tcp result seconds r @ rest) tcp =
       (if result = 0 then Ok r else Err (NpResultCode result))" .
  assume "\<exists>v seconds rest. msg = map_response_wire v tcp 0 seconds r @ rest"
  with wire show "natpmp_parse_map_response msg tcp = Ok r" by auto
qed

end
