(* ===== verification/Pcp.thy ===== *)
theory Pcp imports Nat_Pmp begin

text \<open>
  The PCP method (\<open>src/src/method/pcp.rs\<close>): the MAP request and response of RFC 6887, the receive loop
  of \<open>transact\<close> that ignores datagrams from any address but the gateway, and the traversal method.  The
  nonce drawn from the operating system's generator is an argument.
\<close>

section \<open>Constants and 128-bit addresses\<close>

definition PCP_VERSION :: u8 where "PCP_VERSION = 2"
definition OP_MAP :: u8 where "OP_MAP = 1"
definition RESPONSE_BIT :: u8 where "RESPONSE_BIT = 0x80"
definition PCP_RESULT_SUCCESS :: u8 where "PCP_RESULT_SUCCESS = 0"
definition PROTO_UDP :: u8 where "PROTO_UDP = 17"
definition PROTO_TCP :: u8 where "PROTO_TCP = 6"

lemmas pcp_constants = PCP_VERSION_def OP_MAP_def RESPONSE_BIT_def PCP_RESULT_SUCCESS_def PROTO_UDP_def PROTO_TCP_def

text \<open>\<open>Ipv4Addr::to_ipv6_mapped\<close> and \<open>Ipv6Addr::to_ipv4_mapped\<close>.\<close>

definition to_ipv6_mapped :: "32 word \<Rightarrow> 128 word" where
  [rust_std]: "to_ipv6_mapped v4 = push_bit 32 0xFFFF OR ucast v4"

definition to_ipv4_mapped :: "128 word \<Rightarrow> 32 word option" where
  [rust_std]: "to_ipv4_mapped v6 = (if drop_bit 32 v6 = 0xFFFF then Some (ucast v6) else None)"

fun ip_to_16 :: "ip_addr \<Rightarrow> bytes" where
  "ip_to_16 (IpV4 v4) = be_bytes 16 (to_ipv6_mapped v4)"
| "ip_to_16 (IpV6 v6) = be_bytes 16 v6"

definition ip_from_16 :: "bytes \<Rightarrow> ip_addr" where
  "ip_from_16 bytes =
    (let v6 = from_be bytes in
     case to_ipv4_mapped v6 of Some v4 \<Rightarrow> IpV4 v4 | None \<Rightarrow> IpV6 v6)"

definition ipv4_gateway :: "socket_addr \<Rightarrow> 32 word option" where
  "ipv4_gateway addr = (case addr of SocketAddr (IpV4 v4) _ \<Rightarrow> Some v4 | SocketAddr (IpV6 _) _ \<Rightarrow> None)"

section \<open>Request and response\<close>

definition pcp_encode_map_request :: "bytes \<Rightarrow> bool \<Rightarrow> u16 \<Rightarrow> u16 \<Rightarrow> u32 \<Rightarrow> ip_addr \<Rightarrow> bytes" where
  "pcp_encode_map_request nonce tcp internal_port suggested_external_port lifetime_secs client_ip =
    [PCP_VERSION] @ [OP_MAP] @ [0, 0] @ be_bytes 4 lifetime_secs @ ip_to_16 client_ip @
    nonce @ [if tcp then PROTO_TCP else PROTO_UDP] @ [0, 0, 0] @ be_bytes 2 internal_port @
    be_bytes 2 suggested_external_port @ ip_to_16 (IpV4 0)"

datatype pcp_error =
    PcpTruncated
  | PcpBadVersion u8
  | PcpUnexpectedOpcode u8
  | PcpResultCode u8
  | PcpNonceMismatch
  | PcpIo string
  | PcpTimeout

fun pcp_error_to_string :: "pcp_error \<Rightarrow> string" where
  "pcp_error_to_string PcpTruncated = ''PCP response truncated''"
| "pcp_error_to_string (PcpBadVersion v) = ''unexpected PCP version: '' @ show_nat (unat v)"
| "pcp_error_to_string (PcpUnexpectedOpcode o') = ''unexpected PCP opcode: '' @ show_nat (unat o')"
| "pcp_error_to_string (PcpResultCode c) = ''PCP result code '' @ show_nat (unat c)"
| "pcp_error_to_string PcpNonceMismatch = ''PCP MAP nonce mismatch''"
| "pcp_error_to_string (PcpIo e) = ''PCP io: '' @ e"
| "pcp_error_to_string PcpTimeout = ''PCP request timed out''"

record pcp_map_response =
  pcp_lifetime_secs :: u32
  pcp_nonce :: bytes
  pcp_external_port :: u16
  pcp_external_ip :: ip_addr

definition pcp_parse_map_response :: "bytes \<Rightarrow> bytes \<Rightarrow> (pcp_error, pcp_map_response) result" where
  "pcp_parse_map_response msg expected_nonce =
    (if length msg < 60 then Err PcpTruncated
     else if msg ! 0 \<noteq> PCP_VERSION then Err (PcpBadVersion (msg ! 0))
     else if msg ! 1 \<noteq> OP_MAP OR RESPONSE_BIT then Err (PcpUnexpectedOpcode (msg ! 1))
     else
       let result = msg ! 3 in
       if result \<noteq> PCP_RESULT_SUCCESS then Err (PcpResultCode result)
       else
         let lifetime = from_be [msg ! 4, msg ! 5, msg ! 6, msg ! 7];
             nonce = byte_slice msg 24 36 in
         if nonce \<noteq> expected_nonce then Err PcpNonceMismatch
         else
           let external_port = from_be [msg ! 42, msg ! 43];
               ext_ip_bytes = byte_slice msg 44 60
           in Ok \<lparr> pcp_lifetime_secs = lifetime, pcp_nonce = nonce, pcp_external_port = external_port,
                   pcp_external_ip = ip_from_16 ext_ip_bytes \<rparr>)"

section \<open>The transaction and the method\<close>

record pcp_method =
  pcp_gateway :: socket_addr
  pcp_local_port :: u16
  pcp_client_ip :: ip_addr
  pcp_lifetime :: u32
  pcp_timeout :: nat

definition pcp_new :: "32 word \<Rightarrow> u16 \<Rightarrow> ip_addr \<Rightarrow> pcp_method" where
  "pcp_new gateway local_port client_ip =
    \<lparr> pcp_gateway = SocketAddr (IpV4 gateway) NATPMP_PORT, pcp_local_port = local_port,
      pcp_client_ip = client_ip, pcp_lifetime = 7200, pcp_timeout = 1000 \<rparr>"

text \<open>The loop of \<open>transact\<close>: \<open>now\<close> is the time since the request was sent, \<open>deadline\<close> the whole budget,
  the arrivals carry their absolute times; a receive completes at once when its datagram is already
  there.\<close>

fun pcp_recv_loop ::
  "bool \<Rightarrow> socket_addr \<Rightarrow> nat \<Rightarrow> nat \<Rightarrow> (nat \<times> (string, bytes \<times> socket_addr) result) list \<Rightarrow> nat \<times> (pcp_error, bytes) result" where
  "pcp_recv_loop tie gateway deadline now arrivals =
    (let remaining = deadline - now in
     if remaining = 0 then (now, Err PcpTimeout)
     else
       (case arrivals of
          [] \<Rightarrow> (now + remaining, Err PcpTimeout)
        | (t, r) # rest \<Rightarrow>
            if \<not> in_time tie (t - now) remaining then (now + remaining, Err PcpTimeout)
            else
              let now = max now t in
              (case r of
                 Inl e \<Rightarrow> (now, Err (PcpIo e))
               | Inr (bs, src) \<Rightarrow>
                   if src \<noteq> gateway then pcp_recv_loop tie gateway deadline now rest
                   else (now, Ok (take 128 bs)))))"

declare pcp_recv_loop.simps [simp del]

definition pcp_transact :: "bool \<Rightarrow> udp_env \<Rightarrow> pcp_method \<Rightarrow> bytes \<Rightarrow> (pcp_error, bytes) result future" where
  "pcp_transact tie env self payload =
    (case udp_bind env of Inl e \<Rightarrow> ready (Err (PcpIo e)) | Inr _ \<Rightarrow>
     (case udp_send env payload (pcp_gateway self) of Inl e \<Rightarrow> ready (Err (PcpIo e)) | Inr _ \<Rightarrow>
       Some (pcp_recv_loop tie (pcp_gateway self) (pcp_timeout self) 0 (udp_arrivals env payload))))"

fun pcp_to_method_error :: "pcp_error \<Rightarrow> method_error" where
  "pcp_to_method_error PcpTimeout = error_timeout Pcp"
| "pcp_to_method_error other = error_failed Pcp (pcp_error_to_string other)"

definition pcp_attempt ::
  "bool \<Rightarrow> udp_env \<Rightarrow> bytes \<Rightarrow> pcp_method \<Rightarrow> peer_target \<Rightarrow> (method_error, method_outcome) result future" where
  "pcp_attempt tie env nonce self peer =
    (let addrs = pt_direct_addrs peer in
     if addrs = [] then ready (Err (error_failed Pcp ''peer has no address to dial after mapping''))
     else
       let req = pcp_encode_map_request nonce False (pcp_local_port self) (pcp_local_port self)
                   (pcp_lifetime self) (pcp_client_ip self) in
       await_ok (map_future (map_err pcp_to_method_error) (pcp_transact tie env self req))
         (\<lambda>resp. await_ok (ready (map_err pcp_to_method_error (pcp_parse_map_response resp nonce)))
         (\<lambda>_. ready (Ok (outcome_candidates Pcp addrs)))))"

definition pcp_method_of :: "bool \<Rightarrow> udp_env \<Rightarrow> bytes \<Rightarrow> pcp_method \<Rightarrow> traversal_method" where
  "pcp_method_of tie env nonce self = \<lparr> tm_kind = Pcp, tm_attempt = pcp_attempt tie env nonce self \<rparr>"

lemma pcp_to_method_error_kind [simp]: "me_kind (pcp_to_method_error e) = Pcp"
  by (cases e) simp_all

lemma pcp_to_method_error_timed_out [simp]: "timed_out (pcp_to_method_error e) \<longleftrightarrow> e = PcpTimeout"
  by (cases e) simp_all

interpretation pcp: traversal_method Pcp "pcp_attempt tie env nonce self"
  by unfold_locales
    (auto simp: pcp_attempt_def Let_def await_ok_eq_Ok await_ok_eq_Err split: if_splits)

lemma pcp_method_of_honest: "honest_method (pcp_method_of tie env nonce self)"
  by (simp add: honest_method_def pcp_method_of_def pcp.traversal_method_axioms)

section \<open>Address mapping\<close>

lemma mapped_prefix: "(0xFFFF :: 128 word) = mask 16"
  by (simp add: mask_eq_exp_minus_1)

lemma to_ipv4_mapped_mapped [simp]: "to_ipv4_mapped (to_ipv6_mapped v4) = Some v4"
proof -
  have no: "\<not> bit v4 (32 + n)" for n by (auto dest: bit_imp_le_length)
  have "drop_bit 32 (push_bit 32 (mask 16) OR ucast v4) = (mask 16 :: 128 word)"
    by (rule bit_word_eqI) (auto simp: bit_simps no)
  moreover have "ucast (push_bit 32 (mask 16) OR ucast v4 :: 128 word) = v4"
    by (rule bit_word_eqI) (auto simp: bit_simps)
  ultimately show ?thesis unfolding to_ipv4_mapped_def to_ipv6_mapped_def mapped_prefix by simp
qed

lemma length_ip_to_16 [simp]: "length (ip_to_16 ip) = 16"
  by (cases ip) simp_all

text \<open>What decoding an encoded address yields: an IPv4-mapped IPv6 address comes back as IPv4.\<close>

fun unmapped :: "ip_addr \<Rightarrow> ip_addr" where
  "unmapped (IpV4 v4) = IpV4 v4"
| "unmapped (IpV6 v6) = (case to_ipv4_mapped v6 of Some v4 \<Rightarrow> IpV4 v4 | None \<Rightarrow> IpV6 v6)"

lemma ip_from_to_16: "ip_from_16 (ip_to_16 ip) = unmapped ip"
  by (cases ip) (simp_all add: ip_from_16_def be128.dec_enc)

section \<open>Layout\<close>

text \<open>The MAP response of RFC 6887 as the gateway writes it; \<open>rsv\<close>, \<open>hdr\<close> (epoch and reserved, 16 bytes)
  and \<open>mid\<close> (protocol, reserved, internal port, 6 bytes) are fields the client does not read.\<close>

definition pcp_response_wire :: "u8 \<Rightarrow> u8 \<Rightarrow> u32 \<Rightarrow> bytes \<Rightarrow> bytes \<Rightarrow> bytes \<Rightarrow> u16 \<Rightarrow> ip_addr \<Rightarrow> bytes" where
  "pcp_response_wire rsv result lifetime hdr nonce mid port ip =
     [2, 0x81, rsv, result] @ be_bytes 4 lifetime @ hdr @ nonce @ mid @ be_bytes 2 port @ ip_to_16 ip"

lemma pcp_parse_slices:
  "60 \<le> length msg \<Longrightarrow> pcp_parse_map_response msg nonce =
    (if msg ! 0 \<noteq> 2 then Err (PcpBadVersion (msg ! 0))
     else if msg ! 1 \<noteq> 0x81 then Err (PcpUnexpectedOpcode (msg ! 1))
     else if msg ! 3 \<noteq> 0 then Err (PcpResultCode (msg ! 3))
     else if byte_slice msg 24 36 \<noteq> nonce then Err PcpNonceMismatch
     else Ok \<lparr> pcp_lifetime_secs = from_be (byte_slice msg 4 8), pcp_nonce = nonce,
       pcp_external_port = from_be (byte_slice msg 42 44), pcp_external_ip = ip_from_16 (byte_slice msg 44 60) \<rparr>)"
  using nth_slice_4 [of 4 msg] nth_slice_2 [of 42 msg]
  by (simp add: pcp_parse_map_response_def Let_def pcp_constants)

lemma pcp_response_wire_slices:
  assumes "msg = pcp_response_wire rsv result lifetime hdr nonce mid port ip @ rest"
    "length hdr = 16" "length nonce = 12" "length mid = 6"
  shows "60 \<le> length msg" "msg ! 0 = 2" "msg ! 1 = 0x81" "msg ! 3 = result"
    "byte_slice msg 4 8 = be_bytes 4 lifetime" "byte_slice msg 24 36 = nonce"
    "byte_slice msg 42 44 = be_bytes 2 port" "byte_slice msg 44 60 = ip_to_16 ip"
  using assms(2-4) by (simp_all add: assms(1) pcp_response_wire_def byte_slice_def nth_append)

lemma pcp_request_slices:
  assumes "length nonce = 12" "req = pcp_encode_map_request nonce tcp iport eport lifetime ip"
  shows "length req = 60" "byte_slice req 4 8 = be_bytes 4 lifetime" "byte_slice req 8 24 = ip_to_16 ip"
    "byte_slice req 24 36 = nonce" "req ! 36 = (if tcp then 6 else 17)"
    "byte_slice req 40 42 = be_bytes 2 iport" "byte_slice req 42 44 = be_bytes 2 eport"
    "byte_slice req 44 60 = ip_to_16 (IpV4 0)"
  using assms(1) by (simp_all add: assms(2) pcp_encode_map_request_def byte_slice_def nth_append pcp_constants
      del: ip_to_16.simps)

section \<open>The receive loop\<close>

definition spoofed :: "socket_addr \<Rightarrow> nat \<times> (string, bytes \<times> socket_addr) result \<Rightarrow> bool" where
  "spoofed gateway a \<longleftrightarrow> (case snd a of Inl _ \<Rightarrow> False | Inr (_, src) \<Rightarrow> src \<noteq> gateway)"

lemma pcp_recv_loop_bound: "now \<le> deadline \<Longrightarrow> fst (pcp_recv_loop tie gateway deadline now arrivals) \<le> deadline"
proof (induction tie gateway deadline now arrivals rule: pcp_recv_loop.induct)
  case (1 tie gateway deadline now arrivals)
  then show ?case
    by (subst pcp_recv_loop.simps) (auto simp: Let_def in_time_def split: list.split sum.split)
qed

lemma pcp_recv_loop_Ok:
  "pcp_recv_loop tie gateway deadline now arrivals = (d, Inr msg) \<Longrightarrow>
   \<exists>pre t bs post. arrivals = pre @ (t, Inr (bs, gateway)) # post \<and> (\<forall>a \<in> set pre. spoofed gateway a) \<and>
     t \<le> deadline \<and> msg = take 128 bs"
proof (induction tie gateway deadline now arrivals rule: pcp_recv_loop.induct)
  case (1 tie gateway deadline now arrivals)
  obtain t bs src rest where arr: "arrivals = (t, Inr (bs, src)) # rest" and dl: "deadline - now \<noteq> 0"
    and it: "in_time tie (t - now) (deadline - now)"
    using "1.prems" by (subst (asm) pcp_recv_loop.simps) (auto simp: Let_def split: if_splits list.splits sum.splits)
  have t: "t \<le> deadline" using it dl by (auto simp: in_time_def)
  show ?case
  proof (cases "src = gateway")
    case True
    with "1.prems" arr dl it have "msg = take 128 bs"
      by (subst (asm) pcp_recv_loop.simps) (simp add: Let_def)
    with True arr t show ?thesis
      by (intro exI [of _ "[]"] exI [of _ t] exI [of _ bs] exI [of _ rest]) simp
  next
    case False
    with "1.prems" arr dl it have "pcp_recv_loop tie gateway deadline (max now t) rest = (d, Inr msg)"
      by (subst (asm) pcp_recv_loop.simps) (simp add: Let_def)
    then obtain pre t' bs' post where
      "rest = pre @ (t', Inr (bs', gateway)) # post" "\<forall>a \<in> set pre. spoofed gateway a" "t' \<le> deadline" "msg = take 128 bs'"
      using "1.IH" [OF refl dl arr refl _ refl refl refl False] it by auto
    with arr False show ?thesis
      by (intro exI [of _ "(t, Inr (bs, src)) # pre"] exI [of _ t'] exI [of _ bs'] exI [of _ post])
        (simp add: spoofed_def)
  qed
qed

lemma pcp_recv_loop_skip:
  "\<forall>a \<in> set pre. spoofed gateway a \<and> fst a < deadline \<Longrightarrow> now < deadline \<Longrightarrow> t < deadline \<Longrightarrow>
   \<exists>d. pcp_recv_loop tie gateway deadline now (pre @ (t, Inr (bs, gateway)) # post) = (d, Inr (take 128 bs))"
proof (induction pre arbitrary: now)
  case Nil
  then show ?case by (simp add: pcp_recv_loop.simps Let_def in_time_def) linarith
next
  case (Cons a pre)
  obtain t' r where a: "a = (t', r)" by (cases a)
  with Cons.prems obtain bs' src where r: "r = Inr (bs', src)" "src \<noteq> gateway" "t' < deadline"
    by (auto simp: spoofed_def split: sum.splits)
  have "\<exists>d. pcp_recv_loop tie gateway deadline (max now t') (pre @ (t, Inr (bs, gateway)) # post) = (d, Inr (take 128 bs))"
    using Cons.prems r by (intro Cons.IH) auto
  with a r Cons.prems(2) show ?case
    by (subst pcp_recv_loop.simps) (auto simp: Let_def in_time_def)
qed

text \<open>A concrete exchange: one datagram from another host, then the gateway's reply.\<close>

definition sample_reply :: bytes where
  "sample_reply = pcp_response_wire 0 0 7200 (replicate 16 0) (replicate 12 7) (replicate 6 0) 4000 (IpV4 0x01020304)"

definition sample_env :: udp_env where
  "sample_env = \<lparr> udp_bind = Ok (), udp_send = (\<lambda>_ _. Ok ()),
     udp_arrivals = (\<lambda>_. [(5, Ok (replicate 60 0, SocketAddr (IpV4 9) 5351)), (7, Ok (sample_reply, SocketAddr (IpV4 1) 5351))]) \<rparr>"

definition sample_peer :: peer_target where
  "sample_peer = with_addrs (replicate 32 1) [SocketAddr (IpV4 2) 80] ''DIG_MAINNET''"

lemma sample_transact:
  "pcp_transact False sample_env (pcp_new 1 4000 (IpV4 5)) req = Some (7, Ok sample_reply)"
proof -
  have "length sample_reply = 60"
    by (simp add: sample_reply_def pcp_response_wire_def)
  then show ?thesis
    by (simp add: pcp_transact_def sample_env_def pcp_new_def pcp_recv_loop.simps Let_def in_time_def NATPMP_PORT_def)
qed

lemma sample_parse: "\<exists>r. pcp_parse_map_response sample_reply (replicate 12 7) = Ok r"
proof -
  note f = pcp_response_wire_slices [of sample_reply 0 0 7200 "replicate 16 0" "replicate 12 7" "replicate 6 0" 4000 "IpV4 0x01020304" "[]"]
  show ?thesis using f by (simp add: sample_reply_def pcp_parse_slices)
qed

section \<open>Properties\<close>

text \<open>C31.  The PCP method yields an outcome only when a datagram FROM THE GATEWAY, arriving within the
  deadline, is a MAP response that reports success and echoes the request's nonce; every datagram before
  it came from some other address and was ignored.  The outcome then carries exactly the peer's candidate
  addresses.\<close>

theorem pcp_success_is_authentic:
  assumes "pcp_attempt tie env nonce self peer = Some (d, Ok out)"
  defines "req \<equiv> pcp_encode_map_request nonce False (pcp_local_port self) (pcp_local_port self)
                   (pcp_lifetime self) (pcp_client_ip self)"
  shows "\<exists>pre t bs post. udp_arrivals env req = pre @ (t, Ok (bs, pcp_gateway self)) # post
    \<and> (\<forall>a \<in> set pre. spoofed (pcp_gateway self) a) \<and> t \<le> pcp_timeout self
    \<and> bs ! 1 = 0x81 \<and> bs ! 3 = 0 \<and> byte_slice bs 24 36 = nonce
    \<and> out = outcome_candidates Pcp (pt_direct_addrs peer) \<and> pt_direct_addrs peer \<noteq> []"
proof -
  from assms(1) obtain d' resp r where
    tr: "pcp_transact tie env self req = Some (d', Ok resp)" and
    ok: "pcp_parse_map_response resp nonce = Ok r" and
    out: "out = outcome_candidates Pcp (pt_direct_addrs peer)" "pt_direct_addrs peer \<noteq> []"
    by (auto simp: pcp_attempt_def Let_def await_ok_eq_Ok req_def split: if_splits)
  from tr have "pcp_recv_loop tie (pcp_gateway self) (pcp_timeout self) 0 (udp_arrivals env req) = (d', Ok resp)"
    by (auto simp: pcp_transact_def split: sum.splits)
  from pcp_recv_loop_Ok [OF this] obtain pre t bs post where
    arr: "udp_arrivals env req = pre @ (t, Ok (bs, pcp_gateway self)) # post"
      "\<forall>a \<in> set pre. spoofed (pcp_gateway self) a" "t \<le> pcp_timeout self" "resp = take 128 bs" by blast
  have len: "60 \<le> length resp" using ok by (auto simp: pcp_parse_map_response_def not_less split: if_splits)
  with ok have "resp ! 1 = 0x81" "resp ! 3 = 0" "byte_slice resp 24 36 = nonce"
    by (auto simp: pcp_parse_slices split: if_splits)
  moreover from len arr(4) have "resp ! 1 = bs ! 1" "resp ! 3 = bs ! 3" "byte_slice resp 24 36 = byte_slice bs 24 36"
    by (simp_all add: byte_slice_def drop_take)
  ultimately show ?thesis using arr(1-3) out by metis
qed

theorem pcp_success_is_authentic_witness:
  "\<exists>pre t bs post. udp_arrivals sample_env (pcp_encode_map_request (replicate 12 7) False 4000 4000 7200 (IpV4 5)) = pre @ (t, Ok (bs, SocketAddr (IpV4 1) 5351)) # post
    \<and> t \<le> 1000 \<and> byte_slice bs 24 36 = replicate 12 7"
proof -
  obtain r where r: "pcp_parse_map_response sample_reply (replicate 12 7) = Ok r" using sample_parse by blast
  let ?m = "pcp_new 1 4000 (IpV4 5)" and ?out = "outcome_candidates Pcp (pt_direct_addrs sample_peer)"
  have "pcp_attempt False sample_env (replicate 12 7) ?m sample_peer = Some (7, Ok ?out)"
    by (simp add: pcp_attempt_def Let_def sample_transact sample_peer_def with_addrs_def await_ok_eq_Ok r)
  from pcp_success_is_authentic [OF this] show ?thesis
    by (auto simp: pcp_new_def NATPMP_PORT_def sample_env_def)
qed

text \<open>Datagrams from other addresses do not disturb a transaction: when the gateway's reply follows any
  number of spoofed ones before the deadline, \<open>transact\<close> returns the gateway's reply; and it always returns
  within the deadline.\<close>

theorem pcp_transact_ignores_spoofing:
  assumes "udp_bind env = Ok ()" "udp_send env payload (pcp_gateway self) = Ok ()"
    and "udp_arrivals env payload = pre @ (t, Ok (bs, pcp_gateway self)) # post"
    and "\<forall>a \<in> set pre. spoofed (pcp_gateway self) a \<and> fst a < pcp_timeout self" "t < pcp_timeout self"
  shows "\<exists>d \<le> pcp_timeout self. pcp_transact tie env self payload = Some (d, Ok (take 128 bs))"
proof -
  obtain d where d: "pcp_recv_loop tie (pcp_gateway self) (pcp_timeout self) 0 (udp_arrivals env payload) = (d, Ok (take 128 bs))"
    using pcp_recv_loop_skip [OF assms(4) _ assms(5)] assms(3,5) by fastforce
  moreover have "d \<le> pcp_timeout self"
    using pcp_recv_loop_bound [of 0 "pcp_timeout self"] d by (metis fst_conv le0)
  ultimately show ?thesis using assms(1,2) by (simp add: pcp_transact_def)
qed

theorem pcp_transact_ignores_spoofing_witness:
  "\<exists>d \<le> 1000. pcp_transact False sample_env (pcp_new 1 4000 (IpV4 5)) [] = Some (d, Ok (take 128 sample_reply))"
  using pcp_transact_ignores_spoofing [of sample_env "[]" "pcp_new 1 4000 (IpV4 5)"
      "[(5, Ok (replicate 60 0, SocketAddr (IpV4 9) 5351))]" 7 sample_reply "[]" False]
  by (simp add: sample_env_def pcp_new_def NATPMP_PORT_def spoofed_def)



end
