(* ===== verification/Upnp_Igd.thy ===== *)
theory Upnp_Igd imports Traversal begin

text \<open>
  The UPnP method (\<open>src/src/method/upnp.rs\<close>).  The gateway is the function \<open>add_port_mapping\<close> of the
  \<open>IgdGateway\<close> trait; the production gateway is written over the discovery and mapping calls of the IGD
  library and the operating system's UDP sockets, which are parameters.  Also the selection
  of the IPv6 address a node advertises.
\<close>

section \<open>The gateway and the method\<close>

type_synonym igd_gateway = "u16 \<Rightarrow> u32 \<Rightarrow> (string, u16) result future"

text \<open>The operating system's UDP sockets, by handle: \<open>connect\<close> sends nothing and only selects a route, after which
  \<open>local_addr\<close> tells the source address.\<close>

record udp_probe =
  probe_bind :: "socket_addr \<Rightarrow> nat option"
  probe_connect :: "nat \<Rightarrow> socket_addr \<Rightarrow> nat option"
  probe_local_addr :: "nat \<Rightarrow> socket_addr option"

definition local_ipv4 :: "udp_probe \<Rightarrow> ip_addr option" where
  "local_ipv4 sys =
    (case probe_bind sys (SocketAddr (IpV4 0) 0) of
       None \<Rightarrow> None
     | Some sock \<Rightarrow>
         (case probe_connect sys sock (SocketAddr (IpV4 0x01010101) 80) of
            None \<Rightarrow> None
          | Some sock \<Rightarrow> map_option sa_ip (probe_local_addr sys sock)))"

text \<open>\<open>RealIgd\<close>: \<open>search_gateway\<close> returns the gateway's \<open>add_port\<close>.\<close>

record igd_library =
  search_gateway :: "nat \<Rightarrow> (string, u16 \<Rightarrow> socket_addr \<Rightarrow> u32 \<Rightarrow> string \<Rightarrow> (string, unit) result future) result future"
  igd_probe :: udp_probe

definition real_igd_add_port_mapping :: "igd_library \<Rightarrow> nat \<Rightarrow> igd_gateway" where
  "real_igd_add_port_mapping lib discovery_timeout internal_port lifetime_secs =
    await_ok (map_future (map_err (\<lambda>e. ''igd discovery: '' @ e)) (search_gateway lib discovery_timeout))
      (\<lambda>add_port. case local_ipv4 (igd_probe lib) of
          None \<Rightarrow> ready (Err ''no local IPv4 to map'')
        | Some local_ip \<Rightarrow>
            let local = SocketAddr local_ip internal_port in
            await_ok (map_future (map_err (\<lambda>e. ''igd add_port: '' @ e)) (add_port internal_port local lifetime_secs ''dig-nat''))
              (\<lambda>_. ready (Ok internal_port)))"

record upnp_method =
  up_gateway :: igd_gateway
  up_local_port :: u16
  up_lifetime_secs :: u32

definition upnp_new :: "igd_gateway \<Rightarrow> u16 \<Rightarrow> upnp_method" where
  "upnp_new gateway local_port = \<lparr> up_gateway = gateway, up_local_port = local_port, up_lifetime_secs = 7200 \<rparr>"

definition upnp_attempt :: "upnp_method \<Rightarrow> peer_target \<Rightarrow> (method_error, method_outcome) result future" where
  "upnp_attempt self peer =
    (let addrs = pt_direct_addrs peer in
     if addrs = [] then ready (Err (error_failed Upnp ''peer has no address to dial after mapping''))
     else
       await_ok (map_future (map_err (error_failed Upnp)) (up_gateway self (up_local_port self) (up_lifetime_secs self)))
         (\<lambda>_. ready (Ok (outcome_candidates Upnp addrs))))"

definition upnp_method_of :: "upnp_method \<Rightarrow> traversal_method" where
  "upnp_method_of self = \<lparr> tm_kind = Upnp, tm_attempt = upnp_attempt self \<rparr>"

interpretation upnp: traversal_method Upnp "upnp_attempt self"
  by unfold_locales
    (auto simp: upnp_attempt_def Let_def await_ok_eq_Ok await_ok_eq_Err split: if_splits)

lemma upnp_method_of_honest: "honest_method (upnp_method_of self)"
  by (simp add: honest_method_def upnp_method_of_def upnp.traversal_method_axioms)

section \<open>The IPv6 address to advertise\<close>

definition segment0 :: "128 word \<Rightarrow> u16" where
  [rust_std]: "segment0 v6 = ucast (drop_bit 112 v6)"

definition is_global_unicast_v6 :: "128 word \<Rightarrow> bool" where
  "is_global_unicast_v6 v6 =
    (if v6 = 1 \<or> v6 = 0 \<or> segment0 v6 AND 0xff00 = 0xff00 then False
     else
       let seg0 = segment0 v6;
           is_link_local = (seg0 AND 0xffc0 = 0xfe80);
           is_unique_local = (seg0 AND 0xfe00 = 0xfc00)
       in \<not> is_link_local \<and> \<not> is_unique_local)"

fun select_global_ipv6 :: "ip_addr list \<Rightarrow> ip_addr option" where
  "select_global_ipv6 [] = None"
| "select_global_ipv6 (IpV6 v6 # rest) =
    (if is_global_unicast_v6 v6 then Some (IpV6 v6) else select_global_ipv6 rest)"
| "select_global_ipv6 (IpV4 _ # rest) = select_global_ipv6 rest"

text \<open>\<open>local_ipv6\<close>: the source address the system would use to reach \<open>2606:4700:4700::1111\<close>, kept only when it
  is global.\<close>

definition local_ipv6 :: "udp_probe \<Rightarrow> ip_addr option" where
  "local_ipv6 sys =
    (case probe_bind sys (SocketAddr (IpV6 0) 0) of
       None \<Rightarrow> None
     | Some sock \<Rightarrow>
         (case probe_connect sys sock (SocketAddr (IpV6 0x26064700470000000000000000001111) 80) of
            None \<Rightarrow> None
          | Some sock \<Rightarrow>
              (case map_option sa_ip (probe_local_addr sys sock) of
                 None \<Rightarrow> None
               | Some ip \<Rightarrow> select_global_ipv6 [ip])))"

section \<open>Address blocks\<close>

text \<open>\<open>v6\<close> lies in the block whose first \<open>n\<close> bits are \<open>p\<close>.\<close>

definition in_block :: "nat \<Rightarrow> nat \<Rightarrow> 128 word \<Rightarrow> bool" where
  "in_block p n v6 \<longleftrightarrow> unat v6 div 2 ^ (128 - n) = p"

lemma masked_prefix:
  fixes w :: u16
  assumes "k \<le> 16"
  shows "w AND NOT (mask k) = push_bit k p \<longleftrightarrow> drop_bit k w = take_bit (16 - k) p"
proof
  assume eq: "w AND NOT (mask k) = push_bit k p"
  show "drop_bit k w = take_bit (16 - k) p"
  proof (rule bit_word_eqI)
    fix n assume n: "n < LENGTH(16)"
    from eq have "bit (w AND NOT (mask k)) (k + n) = bit (push_bit k p) (k + n)" by simp
    with n assms show "bit (drop_bit k w) n = bit (take_bit (16 - k) p) n"
      by (cases "k + n < 16") (auto simp: bit_simps dest: bit_imp_le_length)
  qed
next
  assume eq: "drop_bit k w = take_bit (16 - k) p"
  show "w AND NOT (mask k) = push_bit k p"
  proof (rule bit_word_eqI)
    fix n assume n: "n < LENGTH(16)"
    from eq have "bit (drop_bit k w) (n - k) = bit (take_bit (16 - k) p) (n - k)" by simp
    with n assms show "bit (w AND NOT (mask k)) n = bit (push_bit k p) n"
      by (cases "k \<le> n") (auto simp: bit_simps)
  qed
qed

lemma segment0_block:
  assumes "k \<le> 16"
  shows "unat (drop_bit k (segment0 v6)) = unat v6 div 2 ^ (112 + k)"
proof -
  have "unat v6 < 2 ^ 128" using unsigned_less [of v6] by simp
  then have "unat v6 div 2 ^ 112 < 2 ^ 16" by (simp add: div_less_iff_less_mult)
  then have "unat (segment0 v6) = unat v6 div 2 ^ 112"
    unfolding segment0_def unsigned_ucast_eq unat_drop_bit_eq by (simp add: drop_bit_eq_div take_bit_eq_mod)
  then show ?thesis
    unfolding unat_drop_bit_eq by (simp add: drop_bit_eq_div div_mult2_eq power_add)
qed

lemma masked_block:
  fixes p :: nat
  assumes "k \<le> 16" "p < 2 ^ (16 - k)"
  shows "segment0 v AND NOT (mask k) = push_bit k (of_nat p) \<longleftrightarrow> in_block p (16 - k) v"
proof -
  have p: "unat (take_bit (16 - k) (of_nat p :: u16)) = p"
  proof -
    have "(2 :: nat) ^ (16 - k) \<le> 2 ^ 16" by (rule power_increasing) simp_all
    with assms(2) have "p < 2 ^ 16" by simp
    with assms(2) show ?thesis unfolding unsigned_take_bit_eq unat_of_nat by (simp add: take_bit_eq_mod)
  qed
  have "segment0 v AND NOT (mask k) = push_bit k (of_nat p) \<longleftrightarrow> unat v div 2 ^ (112 + k) = p"
    unfolding masked_prefix [OF assms(1)] unfolding word_unat_eq_iff segment0_block [OF assms(1)] p ..
  moreover have "112 + k = 128 - (16 - k)" using assms(1) by simp
  ultimately show ?thesis by (simp only: in_block_def)
qed

lemma is_global_unicast_v6_iff:
  "is_global_unicast_v6 v6 \<longleftrightarrow> v6 \<noteq> 0 \<and> v6 \<noteq> 1 \<and>
     \<not> in_block 0xff 8 v6 \<and> \<not> in_block 0x3fa 10 v6 \<and> \<not> in_block 0x7e 7 v6"
proof -
  have c: "(0xff00 :: u16) = NOT (mask 8)" "(0xffc0 :: u16) = NOT (mask 6)" "(0xfe00 :: u16) = NOT (mask 9)"
    by (simp_all add: mask_eq_exp_minus_1)
  have d: "(0xff00 :: u16) = push_bit 8 (of_nat 0xff)" "(0xfe80 :: u16) = push_bit 6 (of_nat 0x3fa)"
    "(0xfc00 :: u16) = push_bit 9 (of_nat 0x7e)"
    by (simp_all add: push_bit_eq_mult)
  have "segment0 v6 AND 0xff00 = 0xff00 \<longleftrightarrow> in_block 0xff 8 v6"
    using masked_block [where k = 8 and p = "0xff" and v = v6] unfolding c(1) [symmetric] d(1) [symmetric] by simp
  moreover have "segment0 v6 AND 0xffc0 = 0xfe80 \<longleftrightarrow> in_block 0x3fa 10 v6"
    using masked_block [where k = 6 and p = "0x3fa" and v = v6] unfolding c(2) [symmetric] d(2) [symmetric] by simp
  moreover have "segment0 v6 AND 0xfe00 = 0xfc00 \<longleftrightarrow> in_block 0x7e 7 v6"
    using masked_block [where k = 9 and p = "0x7e" and v = v6] unfolding c(3) [symmetric] d(3) [symmetric] by simp
  ultimately show ?thesis by (auto simp: is_global_unicast_v6_def Let_def)
qed

section \<open>Properties\<close>

text \<open>\<open>select_global_ipv6\<close> returns the first IPv6 candidate that lies outside loopback, unspecified,
  multicast \<open>ff00::/8\<close>, link-local \<open>fe80::/10\<close> and unique-local \<open>fc00::/7\<close>, and nothing when there is
  none; IPv4 candidates never count.\<close>

theorem select_global_ipv6_correct:
  "select_global_ipv6 candidates =
     List.find (\<lambda>ip. case ip of IpV4 _ \<Rightarrow> False
       | IpV6 v6 \<Rightarrow> v6 \<noteq> 0 \<and> v6 \<noteq> 1 \<and> \<not> in_block 0xff 8 v6 \<and> \<not> in_block 0x3fa 10 v6 \<and> \<not> in_block 0x7e 7 v6) candidates"
  by (induction candidates rule: select_global_ipv6.induct) (simp_all add: is_global_unicast_v6_iff)

end
