(* ===== verification/Strategy.thy ===== *)
theory Strategy imports Traversal begin

text \<open>
  The traversal strategy (\<open>src/src/strategy.rs\<close>): the bounded attempt, the loop over the methods in rank
  order with its list of failures, and \<open>connect_with_strategy\<close>.  Every function returns the time that
  passed with its result; a method or dial that never completes is the future \<open>None\<close>.
\<close>

type_synonym 's dialer = "peer_target \<Rightarrow> method_outcome \<Rightarrow> (method_error, 's peer_connection) result future"

definition run_bounded ::
  "bool \<Rightarrow> nat \<Rightarrow> traversal_kind \<Rightarrow> (method_error, 'a) result future \<Rightarrow> nat \<times> (method_error, 'a) result" where
  "run_bounded tie t kind fut =
    (case timeout tie t fut of
       (d, Some res) \<Rightarrow> (d, res)
     | (d, None) \<Rightarrow> (d, Err (error_timeout kind)))"

fun strategy_loop ::
  "bool \<Rightarrow> peer_target \<Rightarrow> 's dialer \<Rightarrow> nat \<Rightarrow> traversal_method list \<Rightarrow> method_error list \<Rightarrow>
   nat \<times> (nat_error, 's peer_connection) result" where
  "strategy_loop tie peer dialer t [] failures = (0, Err (AllMethodsFailed failures))"
| "strategy_loop tie peer dialer t (method # ordered) failures =
    (let kind = tm_kind method in
     case run_bounded tie t kind (tm_attempt method peer) of
       (d, Inl e) \<Rightarrow> (let (d', r) = strategy_loop tie peer dialer t ordered (failures @ [e]) in (d + d', r))
     | (d, Inr outcome) \<Rightarrow>
         (case run_bounded tie t kind (dialer peer outcome) of
            (d2, Inr conn) \<Rightarrow> (d + d2, Ok conn)
          | (d2, Inl e) \<Rightarrow>
              (let (d', r) = strategy_loop tie peer dialer t ordered (failures @ [e]) in (d + d2 + d', r))))"

definition connect_with_strategy ::
  "bool \<Rightarrow> peer_target \<Rightarrow> traversal_method list \<Rightarrow> 's dialer \<Rightarrow> nat \<Rightarrow> nat \<times> (nat_error, 's peer_connection) result" where
  "connect_with_strategy tie peer methods dialer per_method_timeout =
    (if methods = [] then (0, Err NoMethodsEnabled)
     else
       let ordered = sort_key (\<lambda>m. rank (tm_kind m)) methods in
       strategy_loop tie peer dialer per_method_timeout ordered [])"

section \<open>One method, both stages\<close>

text \<open>What one method contributes, stages 1 and 2 together: the reference the loop is compared with.\<close>

definition try_method ::
  "bool \<Rightarrow> peer_target \<Rightarrow> 's dialer \<Rightarrow> nat \<Rightarrow> traversal_method \<Rightarrow> nat \<times> (method_error, 's peer_connection) result" where
  "try_method tie peer dialer t m =
    (case run_bounded tie t (tm_kind m) (tm_attempt m peer) of
       (d, Inl e) \<Rightarrow> (d, Err e)
     | (d, Inr outcome) \<Rightarrow>
         (let (d2, r) = run_bounded tie t (tm_kind m) (dialer peer outcome) in (d + d2, r)))"

lemma run_bounded_bound: "fst (run_bounded tie t k f) \<le> t"
  using timeout_bound [of tie t f] by (auto simp: run_bounded_def split: prod.split option.split)

lemma run_bounded_Ok: "run_bounded tie t k f = (d, Inr x) \<Longrightarrow> f = Some (d, Inr x)"
  by (auto simp: run_bounded_def split: prod.splits option.splits dest: timeout_Some)

lemma run_bounded_Err: "run_bounded tie t k f = (d, Inl e) \<Longrightarrow> f = Some (d, Inl e) \<or> e = error_timeout k"
  by (auto simp: run_bounded_def split: prod.splits option.splits dest: timeout_Some)

lemma run_bounded_never [simp]: "run_bounded tie t k None = (t, Err (error_timeout k))"
  by (simp add: run_bounded_def timeout_def)

lemma try_method_bound: "fst (try_method tie peer dialer t m) \<le> 2 * t"
  using run_bounded_bound [of tie t "tm_kind m" "tm_attempt m peer"]
    run_bounded_bound [of tie t "tm_kind m" "dialer peer (projr (snd (run_bounded tie t (tm_kind m) (tm_attempt m peer))))"]
  by (auto simp: try_method_def split: prod.split sum.split)

lemma try_method_Ok:
  "try_method tie peer dialer t m = (d, Inr conn) \<Longrightarrow>
   \<exists>d1 out d2. tm_attempt m peer = Some (d1, Inr out) \<and> dialer peer out = Some (d2, Inr conn) \<and> d = d1 + d2"
  by (auto simp: try_method_def split: prod.splits sum.splits dest!: run_bounded_Ok)

text \<open>A dial reports the kind of the outcome it dialled, in its error and in its connection.\<close>

definition honest_dialer :: "'s dialer \<Rightarrow> bool" where
  "honest_dialer dialer \<longleftrightarrow> (\<forall>p out d r. dialer p out = Some (d, r) \<longrightarrow>
     (case r of Inl e \<Rightarrow> me_kind e = mo_kind out | Inr conn \<Rightarrow> pc_method conn = mo_kind out))"

lemma try_method_tagged:
  assumes "honest_method m" "honest_dialer dialer"
  shows "(case snd (try_method tie peer dialer t m) of Inl e \<Rightarrow> me_kind e | Inr conn \<Rightarrow> pc_method conn) = tm_kind m"
proof -
  note m = assms(1) [unfolded honest_method_def]
  obtain d r where 1: "run_bounded tie t (tm_kind m) (tm_attempt m peer) = (d, r)" by fastforce
  show ?thesis
  proof (cases r)
    case (Inl e)
    with 1 show ?thesis
      using run_bounded_Err [OF 1 [unfolded Inl]] traversal_method.attempt_err_kind [OF m]
      by (auto simp: try_method_def)
  next
    case (Inr out)
    then have out: "mo_kind out = tm_kind m"
      using run_bounded_Ok [OF 1 [unfolded Inr]] traversal_method.attempt_ok_kind [OF m] by blast
    obtain d2 r2 where 2: "run_bounded tie t (tm_kind m) (dialer peer out) = (d2, r2)" by fastforce
    show ?thesis
    proof (cases r2)
      case e: (Inl e)
      with 1 2 Inr out run_bounded_Err [OF 2 [unfolded e]] assms(2) show ?thesis
        by (fastforce simp: try_method_def honest_dialer_def)
    next
      case conn: (Inr conn)
      with 1 2 Inr out run_bounded_Ok [OF 2 [unfolded conn]] assms(2) show ?thesis
        by (fastforce simp: try_method_def honest_dialer_def)
    qed
  qed
qed

section \<open>The loop is a search for the first success\<close>

definition failed_method :: "bool \<Rightarrow> peer_target \<Rightarrow> 's dialer \<Rightarrow> nat \<Rightarrow> traversal_method \<Rightarrow> bool" where
  "failed_method tie peer dialer t m \<longleftrightarrow> \<not> is_ok (snd (try_method tie peer dialer t m))"

lemma strategy_loop_Cons:
  "strategy_loop tie peer dialer t (m # ms) failures =
    (case try_method tie peer dialer t m of
       (d, Inr conn) \<Rightarrow> (d, Ok conn)
     | (d, Inl e) \<Rightarrow> (let (d', r) = strategy_loop tie peer dialer t ms (failures @ [e]) in (d + d', r)))"
  by (auto simp: try_method_def Let_def split: prod.split sum.split)

declare strategy_loop.simps(2) [simp del]

lemma strategy_loop_search:
  "strategy_loop tie peer dialer t ms failures =
    (let failing = takeWhile (failed_method tie peer dialer t) ms;
         spent = sum_list (map (\<lambda>m. fst (try_method tie peer dialer t m)) failing) in
     case dropWhile (failed_method tie peer dialer t) ms of
       [] \<Rightarrow> (spent, Err (AllMethodsFailed (failures @ map (\<lambda>m. projl (snd (try_method tie peer dialer t m))) ms)))
     | m # _ \<Rightarrow> (spent + fst (try_method tie peer dialer t m), Ok (projr (snd (try_method tie peer dialer t m)))))"
proof (induction ms arbitrary: failures)
  case (Cons m ms)
  obtain d r where m: "try_method tie peer dialer t m = (d, r)" by fastforce
  show ?case
  proof (cases r)
    case (Inl e)
    with m have "failed_method tie peer dialer t m" by (simp add: failed_method_def)
    with m Inl Cons.IH [of "failures @ [e]"] show ?thesis
      by (cases "dropWhile (failed_method tie peer dialer t) ms")
        (simp_all add: strategy_loop_Cons Let_def del: dropWhile_eq_Nil_conv)
  next
    case (Inr conn)
    with m show ?thesis by (simp add: strategy_loop_Cons failed_method_def)
  qed
qed simp

lemma strategy_loop_bound: "fst (strategy_loop tie peer dialer t ms failures) \<le> 2 * length ms * t"
proof (induction ms arbitrary: failures)
  case (Cons m ms)
  obtain d r where m: "try_method tie peer dialer t m = (d, r)" by fastforce
  then have d: "d \<le> 2 * t" using try_method_bound [of tie peer dialer t m] by simp
  show ?case
  proof (cases r)
    case (Inl e)
    with m d Cons.IH [of "failures @ [e]"] show ?thesis by (simp add: strategy_loop_Cons split_beta)
  next
    case (Inr conn)
    with m d show ?thesis by (simp add: strategy_loop_Cons)
  qed
qed simp

lemma connect_with_strategy_bound: "fst (connect_with_strategy tie peer methods dialer t) \<le> 2 * length methods * t"
  using strategy_loop_bound [of tie peer dialer t "sort_key (\<lambda>m. rank (tm_kind m)) methods" "[]"]
  by (simp add: connect_with_strategy_def)

text \<open>The order in which the strategy tries the methods.\<close>

abbreviation attempt_order :: "traversal_method list \<Rightarrow> traversal_method list" where
  "attempt_order methods \<equiv> sort_key (\<lambda>m. rank (tm_kind m)) methods"

lemma attempt_order_unique:
  assumes "mset methods = mset methods'" "distinct (map tm_kind methods)"
  shows "attempt_order methods = attempt_order methods'"
proof (rule sort_key_inj_key_eq)
  show "mset methods = mset (attempt_order methods')" using assms(1) by simp
  show "inj_on (\<lambda>m. rank (tm_kind m)) (set methods)"
    using assms(2) by (auto simp: distinct_map inj_on_def)
  show "sorted (map (\<lambda>m. rank (tm_kind m)) (attempt_order methods'))" by simp
qed

lemma strategy_tagged:
  assumes "\<forall>m \<in> set methods. honest_method m" "honest_dialer dialer"
  shows "case snd (connect_with_strategy tie peer methods dialer t) of
      Inl (AllMethodsFailed errors) \<Rightarrow> map me_kind errors = map tm_kind (attempt_order methods)
    | Inl e \<Rightarrow> e = NoMethodsEnabled \<and> methods = []
    | Inr conn \<Rightarrow> pc_method conn \<in> tm_kind ` set methods \<and>
        (\<forall>m \<in> set methods. rank (tm_kind m) < rank (pc_method conn) \<longrightarrow> failed_method tie peer dialer t m)"
proof (cases "methods = []")
  case True
  then show ?thesis by (simp add: connect_with_strategy_def)
next
  case False
  let ?ms = "attempt_order methods" and ?fails = "failed_method tie peer dialer t"
    and ?run = "try_method tie peer dialer t"
  have search: "connect_with_strategy tie peer methods dialer t = strategy_loop tie peer dialer t ?ms []"
    using False by (simp add: connect_with_strategy_def)
  have tagged: "(case snd (?run m) of Inl e \<Rightarrow> me_kind e | Inr conn \<Rightarrow> pc_method conn) = tm_kind m" if "m \<in> set methods" for m
    using that assms by (intro try_method_tagged) auto
  show ?thesis
  proof (cases "dropWhile ?fails ?ms")
    case Nil
    then have "\<forall>m \<in> set methods. ?fails m" by (simp add: dropWhile_eq_Nil_conv)
    then have "me_kind (projl (snd (?run m))) = tm_kind m" if "m \<in> set methods" for m
      using tagged [OF that] that by (cases "snd (?run m)") (auto simp: failed_method_def)
    with Nil show ?thesis by (simp add: search strategy_loop_search Let_def del: dropWhile_eq_Nil_conv)
  next
    case (Cons m rest)
    then have ms: "?ms = takeWhile ?fails ?ms @ m # rest" by (metis takeWhile_dropWhile_id)
    have m: "m \<in> set methods" using ms by (metis in_set_conv_decomp set_sort)
    have "\<not> ?fails m" using Cons by (metis hd_dropWhile list.distinct(1) list.sel(1))
    with tagged [OF m] have kind: "pc_method (projr (snd (?run m))) = tm_kind m"
      by (cases "snd (?run m)") (auto simp: failed_method_def)
    have "?fails n" if "n \<in> set methods" "rank (tm_kind n) < rank (tm_kind m)" for n
    proof -
      have "sorted (map (\<lambda>m. rank (tm_kind m)) (takeWhile ?fails ?ms @ m # rest))" using ms by (metis sorted_sort_key)
      then have "n \<notin> set (m # rest)" using that(2) by (auto simp: sorted_append)
      moreover have "n \<in> set (takeWhile ?fails ?ms @ m # rest)" using that(1) ms by (metis set_sort)
      ultimately have "n \<in> set (takeWhile ?fails ?ms)" by simp
      then show ?thesis by (rule set_takeWhileD [THEN conjunct2])
    qed
    with Cons m kind show ?thesis by (auto simp: search strategy_loop_search Let_def)
  qed
qed

lemma strategy_success_dialed:
  assumes "snd (connect_with_strategy tie peer methods dialer t) = Ok conn"
  shows "\<exists>out d. dialer peer out = Some (d, Ok conn)"
proof -
  let ?ms = "attempt_order methods"
  from assms have "snd (strategy_loop tie peer dialer t ?ms []) = Ok conn"
    by (simp add: connect_with_strategy_def Let_def split: if_splits)
  then obtain m where "m \<in> set (dropWhile (failed_method tie peer dialer t) ?ms)" "\<not> failed_method tie peer dialer t m"
      "conn = projr (snd (try_method tie peer dialer t m))"
    by (auto simp: strategy_loop_search Let_def split: list.splits)
      (metis hd_dropWhile list.distinct(1) list.sel(1) list.set_intros(1))
  then obtain d where "try_method tie peer dialer t m = (d, Ok conn)"
    by (cases "try_method tie peer dialer t m") (auto simp: failed_method_def is_ok_iff)
  then show ?thesis by (blast dest: try_method_Ok)
qed

definition refusing_dialer :: "unit dialer" where
  "refusing_dialer p out = Some (1, Err (error_failed (mo_kind out) ''refused''))"

definition sample_relayed :: traversal_method where
  "sample_relayed = relayed_dial_method \<lparr> rd_relay_endpoint = SocketAddr (IpV4 1) 9, rd_is_ready = True \<rparr>"

section \<open>Properties\<close>

text \<open>C19.  The strategy's answer is the first success in rank order: with the methods stably sorted by rank, it
  is the connection of the first method whose bounded attempt and bounded dial both succeed, after exactly
  the time the failing methods before it took; when every method fails it is \<open>AllMethodsFailed\<close> with one
  error per method, in the order of the attempts; without methods it is \<open>NoMethodsEnabled\<close>.\<close>

theorem strategy_first_success:
  "connect_with_strategy tie peer methods dialer t =
    (if methods = [] then (0, Err NoMethodsEnabled)
     else
       let attempt = try_method tie peer dialer t;
           failing = takeWhile (failed_method tie peer dialer t) (attempt_order methods);
           spent = sum_list (map (\<lambda>m. fst (attempt m)) failing) in
       case dropWhile (failed_method tie peer dialer t) (attempt_order methods) of
         [] \<Rightarrow> (spent, Err (AllMethodsFailed (map (\<lambda>m. projl (snd (attempt m))) (attempt_order methods))))
       | m # _ \<Rightarrow> (spent + fst (attempt m), Ok (projr (snd (attempt m)))))"
  unfolding connect_with_strategy_def strategy_loop_search Let_def append_Nil ..

text \<open>C20.  \<open>connect\<close> never hangs: whatever the methods and the dialer do, even when their futures never
  complete, the strategy answers within two timeouts per method.\<close>

theorem strategy_time_bound:
  "fst (connect_with_strategy tie peer methods dialer t) \<le> 2 * length methods * t"
  by (rule connect_with_strategy_bound)

text \<open>The order in which the caller lists the methods does not matter: two listings of the same methods,
  of pairwise different kinds, give the same answer after the same time.\<close>

theorem strategy_order_independent:
  assumes "mset methods = mset methods'" "distinct (map tm_kind methods)"
  shows "connect_with_strategy tie peer methods dialer t = connect_with_strategy tie peer methods' dialer t"
proof -
  have "methods = [] \<longleftrightarrow> methods' = []" using assms(1) by auto
  then show ?thesis
    using attempt_order_unique [OF assms] by (simp add: connect_with_strategy_def)
qed

theorem strategy_order_independent_witness:
  "connect_with_strategy False p [relayed_dial_method r, direct_method] dialer 5 =
   connect_with_strategy False p [direct_method, relayed_dial_method r] dialer 5"
  by (rule strategy_order_independent) (simp_all add: relayed_dial_method_def direct_method_def)

text \<open>Every reported failure names its method: with methods that keep the trait's contract and a dialer
  that reports the kind it dialled, the errors of \<open>AllMethodsFailed\<close> carry the kinds of the methods in rank
  order, and a connection carries a kind such that every method of lower rank failed.\<close>

theorem strategy_errors_tagged:
  assumes "\<forall>m \<in> set methods. honest_method m" "honest_dialer dialer"
  shows "case snd (connect_with_strategy tie peer methods dialer t) of
      Inl (AllMethodsFailed errors) \<Rightarrow> map me_kind errors = map tm_kind (attempt_order methods)
    | Inl e \<Rightarrow> e = NoMethodsEnabled \<and> methods = []
    | Inr conn \<Rightarrow> pc_method conn \<in> tm_kind ` set methods \<and>
        (\<forall>m \<in> set methods. rank (tm_kind m) < rank (pc_method conn) \<longrightarrow> failed_method tie peer dialer t m)"
  using assms by (rule strategy_tagged)

theorem strategy_errors_tagged_witness:
  "\<exists>errors. snd (connect_with_strategy False (relay_only [] ''n'') [sample_relayed, direct_method] refusing_dialer 5)
      = Err (AllMethodsFailed errors) \<and> map me_kind errors = [Direct, Relayed]"
proof -
  let ?r = "connect_with_strategy False (relay_only [] ''n'') [sample_relayed, direct_method] refusing_dialer 5"
  have order: "attempt_order [sample_relayed, direct_method] = [direct_method, sample_relayed]"
    by (simp add: sample_relayed_def relayed_dial_method_def direct_method_def)
  have kinds: "map tm_kind [direct_method, sample_relayed] = [Direct, Relayed]"
    by (simp add: sample_relayed_def relayed_dial_method_def direct_method_def)
  have "\<exists>errors. snd ?r = Err (AllMethodsFailed errors)"
    by (simp add: connect_with_strategy_def order strategy_loop_Cons try_method_def run_bounded_def timeout_def
        in_time_def ready_def relay_only_def direct_method_def direct_attempt_def sample_relayed_def relayed_dial_method_def
        relayed_dial_attempt_def refusing_dialer_def Let_def)
  then obtain errors where e: "snd ?r = Err (AllMethodsFailed errors)" by blast
  have h1: "\<forall>m \<in> set [sample_relayed, direct_method]. honest_method m"
    by (simp add: direct_method_honest relayed_dial_method_honest sample_relayed_def)
  have h2: "honest_dialer refusing_dialer" by (simp add: honest_dialer_def refusing_dialer_def)
  have "map me_kind errors = map tm_kind (attempt_order [sample_relayed, direct_method])"
    by (rule strategy_errors_tagged [OF h1 h2, where tie = False and peer = "relay_only [] ''n''" and t = 5,
        unfolded e sum.case nat_error.case])
  with e order kinds show ?thesis by simp
qed

end
