(* ===== verification/Dialer.thy ===== *)
theory Dialer imports Strategy begin

text \<open>
  The production dialer \<open>MtlsDialer\<close> (\<open>src/src/dialer.rs\<close>) and its mirror image, the \<open>RelayAcceptor\<close>
  (\<open>src/src/accept.rs\<close>).

  The TLS library, the family-selecting connect of the IP library and the operating system are the
  record \<open>dial_env\<close>, an argument of every definition.  Its documented behaviour is stated by named
  predicates: \<open>spki_pinned\<close> (a client configuration pinned to an identity completes only with a peer
  that captured identity matches) and is a hypothesis where a property needs it.  A byte stream is \<open>'io\<close>,
  an address-family stack \<open>'stack\<close>, a candidate set \<open>'c\<close>, a relay tunnel \<open>'tun\<close>, a session \<open>'s\<close>.
\<close>

section \<open>The outside world\<close>

record happy_eyeballs_config =
  per_attempt_timeout :: nat
  stagger :: nat

record dial_config =
  dc_per_attempt_timeout :: nat
  dc_attempt_delay :: nat

datatype candidate_source = RelayIntroduction | ListenAddr | DnsA | DnsAAAA

text \<open>A TLS stream with the two capture handles, read after the handshake.\<close>

record 'io tls_session =
  tls_stream :: 'io
  captured_peer_id :: "peer_id option"
  captured_bls :: "bytes option"

record ('node, 'bp, 'cfg, 'io, 'stack, 'c, 'tun, 's) dial_env =
  node_peer_id :: "'node \<Rightarrow> peer_id"
  peer_id_to_hex :: "peer_id \<Rightarrow> string"
  binding_policy_default :: 'bp
  client_config_spki_pinned :: "'node \<Rightarrow> peer_id option \<Rightarrow> 'bp \<Rightarrow> (string, 'cfg) result"
  server_config_spki_pinned :: "'node \<Rightarrow> 'bp \<Rightarrow> (string, 'cfg) result"
  server_name_try_from :: "string \<Rightarrow> (string, string) result"
  tls_connect :: "'cfg \<Rightarrow> string \<Rightarrow> 'io \<Rightarrow> (string, 'io tls_session) result future"
  tls_accept :: "'cfg \<Rightarrow> 'io \<Rightarrow> (string, 'io tls_session) result future"
  local_stack_cached :: 'stack
  candidates_new :: 'c
  candidates_extend :: "'c \<Rightarrow> socket_addr list \<Rightarrow> candidate_source \<Rightarrow> 'c"
  ip_connect :: "'stack \<Rightarrow> 'c \<Rightarrow> dial_config \<Rightarrow> (socket_addr \<Rightarrow> (string, 'io) result future) \<Rightarrow>
      (string, 'io \<times> socket_addr) result future"
  tcp_connect :: "socket_addr \<Rightarrow> (string, 'io) result future"
  show_addr :: "socket_addr \<Rightarrow> string"
  tunnel_stream :: "'tun \<Rightarrow> 'io"
  session_client :: "'io \<Rightarrow> 's"
  session_server :: "'io \<Rightarrow> 's"

text \<open>The contract of the pinned client configuration: a completed handshake captured the pinned identity.\<close>

definition spki_pinned :: "('node, 'bp, 'cfg, 'io, 'stack, 'c, 'tun, 's) dial_env \<Rightarrow> bool" where
  "spki_pinned env \<longleftrightarrow> (\<forall>node pid policy cfg name io d tls captured.
     client_config_spki_pinned env node (Some pid) policy = Ok cfg \<longrightarrow>
     tls_connect env cfg name io = Some (d, Ok tls) \<longrightarrow>
     captured_peer_id tls = Some captured \<longrightarrow> captured = pid)"

section \<open>The dialer\<close>

definition happy_eyeballs_default :: happy_eyeballs_config where
  "happy_eyeballs_default = \<lparr> per_attempt_timeout = 10000, stagger = 250 \<rparr>"

definition to_dial_config :: "happy_eyeballs_config \<Rightarrow> dial_config" where
  "to_dial_config cfg = \<lparr> dc_per_attempt_timeout = per_attempt_timeout cfg, dc_attempt_delay = stagger cfg \<rparr>"

fun source_of_kind :: "traversal_kind \<Rightarrow> candidate_source" where
  "source_of_kind HolePunch = RelayIntroduction"
| "source_of_kind Relayed = RelayIntroduction"
| "source_of_kind Direct = ListenAddr"
| "source_of_kind Upnp = ListenAddr"
| "source_of_kind NatPmp = ListenAddr"
| "source_of_kind Pcp = ListenAddr"

definition candidates_from_outcome ::
  "('node, 'bp, 'cfg, 'io, 'stack, 'c, 'tun, 's) dial_env \<Rightarrow> method_outcome \<Rightarrow> 'c" where
  "candidates_from_outcome env outcome =
     candidates_extend env (candidates_new env) (dial_addrs outcome) (source_of_kind (mo_kind outcome))"

text \<open>A \<open>RelayedDialer\<close> with its tunnel operation.\<close>

record 'tun tunnel_dialer = relayed_dialer +
  rd_open_dial_tunnel :: "string \<Rightarrow> string \<Rightarrow> (string, 'tun) result future"

record ('node, 'bp, 'stack, 'tun) mtls_dialer =
  md_node :: 'node
  md_happy_eyeballs :: happy_eyeballs_config
  md_binding_policy :: 'bp
  md_local_stack :: "'stack option"
  md_relayed :: "'tun tunnel_dialer option"

definition mtls_dialer_new ::
  "('node, 'bp, 'cfg, 'io, 'stack, 'c, 'tun, 's) dial_env \<Rightarrow> 'node \<Rightarrow> ('node, 'bp, 'stack, 'tun) mtls_dialer" where
  "mtls_dialer_new env node = \<lparr> md_node = node, md_happy_eyeballs = happy_eyeballs_default,
     md_binding_policy = binding_policy_default env, md_local_stack = None, md_relayed = None \<rparr>"

definition with_binding_policy where
  "with_binding_policy self policy = self\<lparr> md_binding_policy := policy \<rparr>"

definition with_happy_eyeballs where
  "with_happy_eyeballs self config = self\<lparr> md_happy_eyeballs := config \<rparr>"

definition with_local_stack where
  "with_local_stack self stack = self\<lparr> md_local_stack := Some stack \<rparr>"

definition with_relayed_dialer where
  "with_relayed_dialer self relayed = self\<lparr> md_relayed := Some relayed \<rparr>"

definition classify_tls_error :: "traversal_kind \<Rightarrow> string \<Rightarrow> method_error" where
  "classify_tls_error kind e = error_failed kind (''mtls handshake: '' @ e)"

definition handshake_over ::
  "('node, 'bp, 'cfg, 'io, 'stack, 'c, 'tun, 's) dial_env \<Rightarrow> ('node, 'bp, 'stack, 'tun) mtls_dialer \<Rightarrow>
   peer_target \<Rightarrow> traversal_kind \<Rightarrow> 'io \<Rightarrow> socket_addr \<Rightarrow> (method_error, 's peer_connection) result future" where
  "handshake_over env self peer kind stream remote_addr =
    await_ok (ready (map_err (\<lambda>e. error_failed kind (''client cert config: '' @ e))
        (client_config_spki_pinned env (md_node self) (Some (pt_peer_id peer)) (md_binding_policy self))))
      (\<lambda>client_tls. await_ok (ready (map_err (\<lambda>e. error_failed kind (''server name: '' @ e))
          (server_name_try_from env ''peer.dig.invalid'')))
      (\<lambda>server_name. await_ok (map_future (map_err (classify_tls_error kind)) (tls_connect env client_tls server_name stream))
      (\<lambda>tls. case captured_peer_id tls of
          None \<Rightarrow> ready (Err (error_failed kind ''peer presented no certificate''))
        | Some verified \<Rightarrow> ready (Ok \<lparr> pc_peer_id = verified, pc_method = kind, pc_remote_addr = remote_addr,
            pc_peer_bls_pub = captured_bls tls, pc_session = session_client env (tls_stream tls) \<rparr>))))"

definition dial_relayed ::
  "('node, 'bp, 'cfg, 'io, 'stack, 'c, 'tun, 's) dial_env \<Rightarrow> ('node, 'bp, 'stack, 'tun) mtls_dialer \<Rightarrow>
   peer_target \<Rightarrow> method_outcome \<Rightarrow> (method_error, 's peer_connection) result future" where
  "dial_relayed env self peer outcome =
    (let kind = Relayed in
     case md_relayed self of
       None \<Rightarrow> ready (Err (error_failed kind ''no relay data-plane wired for the relayed tier''))
     | Some relayed \<Rightarrow>
         await_ok (map_future (map_err (error_failed kind))
             (rd_open_dial_tunnel relayed (peer_id_to_hex env (pt_peer_id peer)) (pt_network_id peer)))
           (\<lambda>tunnel.
             let remote_addr = (case outcome_dial_addr outcome of Some a \<Rightarrow> a | None \<Rightarrow> rd_relay_endpoint relayed) in
             handshake_over env self peer kind (tunnel_stream env tunnel) remote_addr))"

definition mtls_dial ::
  "('node, 'bp, 'cfg, 'io, 'stack, 'c, 'tun, 's) dial_env \<Rightarrow> ('node, 'bp, 'stack, 'tun) mtls_dialer \<Rightarrow> 's dialer" where
  "mtls_dial env self peer outcome =
    (let kind = mo_kind outcome in
     if pt_peer_id peer = node_peer_id env (md_node self)
     then ready (Err (error_failed kind ''refusing self-dial (target peer_id == local peer_id)''))
     else if kind = Relayed then dial_relayed env self peer outcome
     else
       let local = (case md_local_stack self of Some s \<Rightarrow> s | None \<Rightarrow> local_stack_cached env);
           candidates = candidates_from_outcome env outcome;
           tcp = (\<lambda>addr. map_future (map_err (\<lambda>e. ''tcp connect '' @ show_addr env addr @ '': '' @ e)) (tcp_connect env addr)) in
       await_ok (map_future (map_err (error_failed kind))
           (ip_connect env local candidates (to_dial_config (md_happy_eyeballs self)) tcp))
         (\<lambda>(conn, addr). handshake_over env self peer kind conn addr))"

section \<open>The acceptor\<close>

record ('node, 'bp) relay_acceptor =
  ra_node :: 'node
  ra_binding_policy :: 'bp
  ra_relay_endpoint :: socket_addr

definition unspecified_addr :: socket_addr where
  "unspecified_addr = SocketAddr (IpV6 0) 0"

definition relay_acceptor_new ::
  "('node, 'bp, 'cfg, 'io, 'stack, 'c, 'tun, 's) dial_env \<Rightarrow> 'node \<Rightarrow> ('node, 'bp) relay_acceptor" where
  "relay_acceptor_new env node =
     \<lparr> ra_node = node, ra_binding_policy = binding_policy_default env, ra_relay_endpoint = unspecified_addr \<rparr>"

definition acceptor_with_binding_policy where
  "acceptor_with_binding_policy self policy = self\<lparr> ra_binding_policy := policy \<rparr>"

definition acceptor_with_relay_endpoint where
  "acceptor_with_relay_endpoint self endpoint = self\<lparr> ra_relay_endpoint := endpoint \<rparr>"

definition relay_accept ::
  "('node, 'bp, 'cfg, 'io, 'stack, 'c, 'tun, 's) dial_env \<Rightarrow> ('node, 'bp) relay_acceptor \<Rightarrow> 'tun \<Rightarrow>
   (method_error, 's peer_connection) result future" where
  "relay_accept env self tunnel =
    (let kind = Relayed in
     await_ok (ready (map_err (\<lambda>e. error_failed kind (''server cert config: '' @ e))
         (server_config_spki_pinned env (ra_node self) (ra_binding_policy self))))
       (\<lambda>server_tls. await_ok (map_future (map_err (\<lambda>e. error_failed kind (''mtls accept: '' @ e)))
           (tls_accept env server_tls (tunnel_stream env tunnel)))
       (\<lambda>tls. case captured_peer_id tls of
           None \<Rightarrow> ready (Err (error_failed kind ''peer presented no certificate''))
         | Some verified \<Rightarrow> ready (Ok \<lparr> pc_peer_id = verified, pc_method = kind, pc_remote_addr = ra_relay_endpoint self,
             pc_peer_bls_pub = captured_bls tls, pc_session = session_server env (tls_stream tls) \<rparr>))))"

section \<open>Facts about a handshake\<close>

lemma captured_eq_Ok [simp]:
  "(case c of None \<Rightarrow> ready (Inl e) | Some v \<Rightarrow> ready (Inr (f v))) = Some (d, Inr x) \<longleftrightarrow>
     d = 0 \<and> (\<exists>v. c = Some v \<and> x = f v)"
  by (cases c) auto

lemma handshake_over_Ok:
  assumes "handshake_over env self peer kind stream addr = Some (d, Ok conn)"
  shows "\<exists>cfg name tls. client_config_spki_pinned env (md_node self) (Some (pt_peer_id peer)) (md_binding_policy self) = Ok cfg
    \<and> (\<exists>d'. tls_connect env cfg name stream = Some (d', Ok tls))
    \<and> captured_peer_id tls = Some (pc_peer_id conn) \<and> pc_method conn = kind \<and> pc_remote_addr conn = addr
    \<and> pc_peer_bls_pub conn = captured_bls tls"
  using assms by (auto simp: handshake_over_def await_ok_eq_Ok) blast

lemma handshake_over_Err:
  "handshake_over env self peer kind stream addr = Some (d, Err e) \<Longrightarrow> me_kind e = kind \<and> \<not> timed_out e"
  by (auto simp: handshake_over_def await_ok_eq_Err classify_tls_error_def split: option.splits)

lemma handshake_over_pinned:
  assumes "spki_pinned env" "handshake_over env self peer kind stream addr = Some (d, Ok conn)"
  shows "pc_peer_id conn = pt_peer_id peer"
  using handshake_over_Ok [OF assms(2)] assms(1) unfolding spki_pinned_def by blast

lemma dial_relayed_eq_Ok:
  "dial_relayed env self peer outcome = Some (d, Ok conn) \<Longrightarrow>
   \<exists>stream addr d'. handshake_over env self peer Relayed stream addr = Some (d', Ok conn)"
  by (auto simp: dial_relayed_def Let_def await_ok_eq_Ok split: option.splits)

lemma mtls_dial_Ok:
  assumes "mtls_dial env self peer outcome = Some (d, Ok conn)"
  shows "pt_peer_id peer \<noteq> node_peer_id env (md_node self)"
    and "\<exists>stream addr d'. handshake_over env self peer (mo_kind outcome) stream addr = Some (d', Ok conn)"
proof -
  show "pt_peer_id peer \<noteq> node_peer_id env (md_node self)"
    using assms by (auto simp: mtls_dial_def)
  show "\<exists>stream addr d'. handshake_over env self peer (mo_kind outcome) stream addr = Some (d', Ok conn)"
    using assms
    by (auto simp: mtls_dial_def Let_def await_ok_eq_Ok split: if_splits dest!: dial_relayed_eq_Ok)
qed

lemma dial_relayed_Err: "dial_relayed env self peer outcome = Some (d, Err e) \<Longrightarrow> me_kind e = Relayed"
  by (auto simp: dial_relayed_def Let_def await_ok_eq_Err split: option.splits dest: handshake_over_Err)

lemma mtls_dial_Err: "mtls_dial env self peer outcome = Some (d, Err e) \<Longrightarrow> me_kind e = mo_kind outcome"
  by (auto simp: mtls_dial_def Let_def await_ok_eq_Err split: if_splits dest: dial_relayed_Err handshake_over_Err)

lemma mtls_dial_honest: "honest_dialer (mtls_dial env self)"
  unfolding honest_dialer_def
proof (intro allI impI)
  fix p out d r assume r: "mtls_dial env self p out = Some (d, r)"
  show "(case r of Inl e \<Rightarrow> me_kind e = mo_kind out | Inr conn \<Rightarrow> pc_method conn = mo_kind out)"
  proof (cases r)
    case (Inl e)
    with r mtls_dial_Err show ?thesis by fastforce
  next
    case (Inr conn)
    with r obtain stream addr d' where "handshake_over env self p (mo_kind out) stream addr = Some (d', Ok conn)"
      using mtls_dial_Ok(2) by blast
    with Inr handshake_over_Ok show ?thesis by fastforce
  qed
qed

section \<open>Properties\<close>

text \<open>C8.  Every tier authenticates alike: whatever the outcome's kind, direct, mapped, punched or relayed, a
  connection the dialer returns was made by a handshake pinned to the asked-for identity, so it carries
  exactly that peer's identity (given the pinning contract of the TLS library) and the kind of the outcome;
  it is never this node itself.\<close>

theorem dial_authenticates_every_tier:
  assumes "spki_pinned env" "mtls_dial env self peer outcome = Some (d, Ok conn)"
  shows "pc_peer_id conn = pt_peer_id peer \<and> pc_method conn = mo_kind outcome
    \<and> pc_peer_id conn \<noteq> node_peer_id env (md_node self)
    \<and> (\<exists>cfg. client_config_spki_pinned env (md_node self) (Some (pt_peer_id peer)) (md_binding_policy self) = Ok cfg)"
proof -
  obtain stream addr d' where h: "handshake_over env self peer (mo_kind outcome) stream addr = Some (d', Ok conn)"
    using mtls_dial_Ok(2) [OF assms(2)] by blast
  from handshake_over_pinned [OF assms(1) h] handshake_over_Ok [OF h] mtls_dial_Ok(1) [OF assms(2)]
  show ?thesis by auto
qed

text \<open>The self-dial chokepoint: a dial of this node's own identity is refused at once, for every kind of
  outcome and whatever addresses it carries, by the same non-timeout error; no connect, tunnel or handshake
  takes part in the answer.\<close>

theorem self_dial_refused:
  assumes "pt_peer_id peer = node_peer_id env (md_node self)"
  shows "mtls_dial env self peer outcome =
    Some (0, Err \<lparr> me_kind = mo_kind outcome, reason = ''refusing self-dial (target peer_id == local peer_id)'', timed_out = False \<rparr>)"
  using assms by (simp add: mtls_dial_def ready_def error_failed_def)

text \<open>An accepting TLS library over which everything succeeds, for the witnesses.\<close>

definition open_env :: "(peer_id, unit, peer_id option, unit, unit, unit, unit, unit) dial_env" where
  "open_env = \<lparr> node_peer_id = (\<lambda>n. n), peer_id_to_hex = (\<lambda>_. []), binding_policy_default = (),
     client_config_spki_pinned = (\<lambda>_ pid _. Ok pid), server_config_spki_pinned = (\<lambda>n _. Ok (Some n)),
     server_name_try_from = Ok, tls_connect = (\<lambda>cfg _ io. Some (3, Ok \<lparr> tls_stream = io, captured_peer_id = cfg, captured_bls = None \<rparr>)),
     tls_accept = (\<lambda>_ io. Some (3, Ok \<lparr> tls_stream = io, captured_peer_id = Some [9], captured_bls = None \<rparr>)),
     local_stack_cached = (), candidates_new = (), candidates_extend = (\<lambda>c _ _. c),
     ip_connect = (\<lambda>_ _ _ _. Some (2, Ok ((), SocketAddr (IpV4 7) 8))), tcp_connect = (\<lambda>_. ready (Ok ())),
     show_addr = (\<lambda>_. []), tunnel_stream = (\<lambda>t. t), session_client = (\<lambda>io. io), session_server = (\<lambda>io. io) \<rparr>"

lemma open_env_pinned: "spki_pinned open_env"
  by (auto simp: spki_pinned_def open_env_def)

theorem dial_authenticates_every_tier_witness:
  "\<exists>conn. mtls_dial open_env (mtls_dialer_new open_env [1]) (relay_only [2] []) (outcome_single Direct (SocketAddr (IpV4 7) 8))
     = Some (5, Ok conn) \<and> pc_peer_id conn = [2] \<and> pc_method conn = Direct"
proof -
  let ?d = "mtls_dial open_env (mtls_dialer_new open_env [1]) (relay_only [2] []) (outcome_single Direct (SocketAddr (IpV4 7) 8))"
  obtain conn where conn: "?d = Some (5, Ok conn)"
    by (simp add: mtls_dial_def open_env_def mtls_dialer_new_def relay_only_def Let_def await_ok_def await_def ready_def
        map_future_def handshake_over_def)
  from dial_authenticates_every_tier [OF open_env_pinned conn] conn show ?thesis by (simp add: relay_only_def)
qed

theorem self_dial_refused_witness:
  "mtls_dial open_env (mtls_dialer_new open_env [1]) (relay_only [1] []) (outcome_single Relayed (SocketAddr (IpV4 7) 8)) =
    Some (0, Err \<lparr> me_kind = Relayed, reason = ''refusing self-dial (target peer_id == local peer_id)'', timed_out = False \<rparr>)"
  using self_dial_refused [of "relay_only [1] []" open_env "mtls_dialer_new open_env [1]"]
  by (simp add: relay_only_def mtls_dialer_new_def open_env_def)

text \<open>The acceptor takes any authenticated peer and reports who it is: an accepted circuit carries the
  identity captured from the client certificate and the relayed kind, and a handshake that captured no
  certificate is refused.\<close>

theorem accept_reports_captured_identity:
  "relay_accept env self tunnel = Some (d, Ok conn) \<longleftrightarrow>
    (\<exists>cfg tls. server_config_spki_pinned env (ra_node self) (ra_binding_policy self) = Ok cfg
      \<and> tls_accept env cfg (tunnel_stream env tunnel) = Some (d, Ok tls)
      \<and> captured_peer_id tls = Some (pc_peer_id conn)
      \<and> conn = \<lparr> pc_peer_id = pc_peer_id conn, pc_method = Relayed, pc_remote_addr = ra_relay_endpoint self,
                pc_peer_bls_pub = captured_bls tls, pc_session = session_server env (tls_stream tls) \<rparr>)"
  by (auto simp: relay_accept_def Let_def await_ok_eq_Ok)

end
