(* ===== verification/Ladder.thy ===== *)
theory Ladder imports Dialer Pcp Upnp_Igd begin

text \<open>
  The public entry points: the configuration (\<open>src/src/config.rs\<close>), the carrier of live handles
  (\<open>src/src/runtime.rs\<close>), \<open>compose_ladder\<close> and \<open>connect_with_runtime\<close> (\<open>src/src/lib.rs\<close>).  The relay URL
  constant and the default binding policy come from other crates and are arguments; so are the sockets the
  NAT-PMP and PCP methods open and the nonce PCP draws.
\<close>

section \<open>Configuration\<close>

record 'bp nat_config =
  enabled_methods :: "traversal_kind list"
  per_method_timeout :: nat
  relay_endpoint :: string
  stun_server :: "socket_addr option"
  binding_policy :: 'bp
  fast_connect_grace :: nat

definition DEFAULT_FAST_CONNECT_GRACE :: nat where "DEFAULT_FAST_CONNECT_GRACE = 5000"
definition STUN_PORT :: u16 where "STUN_PORT = 3478"

definition nat_config_default :: "string \<Rightarrow> 'bp \<Rightarrow> 'bp nat_config" where
  "nat_config_default dig_relay_url opportunistic =
    \<lparr> enabled_methods = [Direct, Upnp, NatPmp, Pcp, HolePunch, Relayed], per_method_timeout = 5000,
      relay_endpoint = dig_relay_url, stun_server = None, binding_policy = opportunistic,
      fast_connect_grace = DEFAULT_FAST_CONNECT_GRACE \<rparr>"

definition is_enabled :: "'bp nat_config \<Rightarrow> traversal_kind \<Rightarrow> bool" where
  "is_enabled self kind \<longleftrightarrow> kind \<in> set (enabled_methods self)"

definition cfg_enabled_methods :: "'bp nat_config \<Rightarrow> traversal_kind list \<Rightarrow> 'bp nat_config" where
  "cfg_enabled_methods cfg methods = cfg\<lparr> enabled_methods := methods \<rparr>"

definition cfg_disable :: "'bp nat_config \<Rightarrow> traversal_kind \<Rightarrow> 'bp nat_config" where
  "cfg_disable cfg kind = cfg\<lparr> enabled_methods := List.filter (\<lambda>k. k \<noteq> kind) (enabled_methods cfg) \<rparr>"

definition cfg_per_method_timeout where "cfg_per_method_timeout cfg t = cfg\<lparr> per_method_timeout := t \<rparr>"
definition cfg_relay_endpoint where "cfg_relay_endpoint cfg endpoint = cfg\<lparr> relay_endpoint := endpoint \<rparr>"
definition cfg_stun_server where "cfg_stun_server cfg addr = cfg\<lparr> stun_server := Some addr \<rparr>"
definition cfg_binding_policy where "cfg_binding_policy cfg policy = cfg\<lparr> binding_policy := policy \<rparr>"
definition cfg_fast_connect_grace where "cfg_fast_connect_grace cfg grace = cfg\<lparr> fast_connect_grace := grace \<rparr>"

section \<open>Runtime handles\<close>

record 'tun nat_runtime =
  rt_local_port :: "u16 option"
  rt_gateway_v4 :: "32 word option"
  rt_client_ip :: "ip_addr option"
  rt_igd :: "igd_gateway option"
  rt_my_external_addr :: "socket_addr option"
  rt_hole_punch :: "coordinator option"
  rt_relayed :: "'tun tunnel_dialer option"

definition nat_runtime_default :: "'tun nat_runtime" where
  "nat_runtime_default = \<lparr> rt_local_port = None, rt_gateway_v4 = None, rt_client_ip = None, rt_igd = None,
     rt_my_external_addr = None, rt_hole_punch = None, rt_relayed = None \<rparr>"

text \<open>The builder's setters.\<close>

definition rt_set_local_port where "rt_set_local_port rt port = rt\<lparr> rt_local_port := Some port \<rparr>"
definition rt_set_gateway_v4 where "rt_set_gateway_v4 rt gateway = rt\<lparr> rt_gateway_v4 := Some gateway \<rparr>"
definition rt_set_client_ip where "rt_set_client_ip rt ip = rt\<lparr> rt_client_ip := Some ip \<rparr>"
definition rt_set_igd where "rt_set_igd rt igd = rt\<lparr> rt_igd := Some igd \<rparr>"
definition rt_set_my_external_addr where "rt_set_my_external_addr rt addr = rt\<lparr> rt_my_external_addr := Some addr \<rparr>"
definition rt_set_hole_punch where "rt_set_hole_punch rt coordinator = rt\<lparr> rt_hole_punch := Some coordinator \<rparr>"
definition rt_set_relayed where "rt_set_relayed rt relayed = rt\<lparr> rt_relayed := Some relayed \<rparr>"

section \<open>The ladder\<close>

text \<open>What the methods of a ladder take from the system: timer tie, identity rendering, sockets, nonce, IGD library.\<close>

record ladder_env =
  le_tie :: bool
  le_to_hex :: "peer_id \<Rightarrow> string"
  le_natpmp_udp :: udp_env
  le_pcp_udp :: udp_env
  le_new_nonce :: bytes
  le_igd_lib :: igd_library

definition compose_ladder :: "ladder_env \<Rightarrow> 'bp nat_config \<Rightarrow> 'tun nat_runtime \<Rightarrow> traversal_method list" where
  "compose_ladder le config runtime =
    (let methods = [];
         methods = (if is_enabled config Direct then methods @ [direct_method] else methods);
         methods = (if is_enabled config Upnp then
             (case rt_local_port runtime of
                Some port \<Rightarrow>
                  let gateway = (case rt_igd runtime of Some g \<Rightarrow> g
                      | None \<Rightarrow> real_igd_add_port_mapping (le_igd_lib le) 2000) in
                  methods @ [upnp_method_of (upnp_new gateway port)]
              | None \<Rightarrow> methods) else methods);
         methods = (if is_enabled config NatPmp then
             (case (rt_local_port runtime, rt_gateway_v4 runtime) of
                (Some port, Some gw) \<Rightarrow> methods @ [natpmp_method (le_tie le) (le_natpmp_udp le) (nat_pmp_new gw port)]
              | _ \<Rightarrow> methods) else methods);
         methods = (if is_enabled config Pcp then
             (case (rt_local_port runtime, rt_gateway_v4 runtime, rt_client_ip runtime) of
                (Some port, Some gw, Some client_ip) \<Rightarrow>
                  methods @ [pcp_method_of (le_tie le) (le_pcp_udp le) (le_new_nonce le) (pcp_new gw port client_ip)]
              | _ \<Rightarrow> methods) else methods);
         methods = (if is_enabled config HolePunch then
             (case (rt_hole_punch runtime, rt_my_external_addr runtime) of
                (Some coordinate, Some my_addr) \<Rightarrow> methods @ [hole_punch_method (le_to_hex le) coordinate my_addr]
              | _ \<Rightarrow> methods) else methods);
         methods = (if is_enabled config Relayed then
             (case rt_relayed runtime of Some relayed \<Rightarrow> methods @ [relayed_dial_method relayed] | None \<Rightarrow> methods)
             else methods)
     in methods)"

definition runtime_dialer ::
  "('node, 'bp, 'cfg, 'io, 'stack, 'c, 'tun, 's) dial_env \<Rightarrow> 'node \<Rightarrow> 'bp nat_config \<Rightarrow> 'tun nat_runtime \<Rightarrow>
   ('node, 'bp, 'stack, 'tun) mtls_dialer" where
  "runtime_dialer env node config runtime =
    (let dialer = with_binding_policy (mtls_dialer_new env node) (binding_policy config) in
     case rt_relayed runtime of Some relayed \<Rightarrow> with_relayed_dialer dialer relayed | None \<Rightarrow> dialer)"

lemma runtime_dialer_node [simp]: "md_node (runtime_dialer env node config runtime) = node"
  by (simp add: runtime_dialer_def with_binding_policy_def with_relayed_dialer_def mtls_dialer_new_def Let_def split: option.split)

definition connect_with_runtime ::
  "('node, 'bp, 'cfg, 'io, 'stack, 'c, 'tun, 's) dial_env \<Rightarrow> ladder_env \<Rightarrow> peer_target \<Rightarrow> 'node \<Rightarrow>
   'bp nat_config \<Rightarrow> 'tun nat_runtime \<Rightarrow> nat \<times> (nat_error, 's peer_connection) result" where
  "connect_with_runtime env le peer node config runtime =
    (let methods = compose_ladder le config runtime in
     if methods = [] then (0, Err NoMethodsEnabled)
     else
       connect_with_strategy (le_tie le) peer methods (mtls_dial env (runtime_dialer env node config runtime))
         (per_method_timeout config))"

definition connect ::
  "('node, 'bp, 'cfg, 'io, 'stack, 'c, 'tun, 's) dial_env \<Rightarrow> ladder_env \<Rightarrow> peer_target \<Rightarrow> 'node \<Rightarrow>
   'bp nat_config \<Rightarrow> nat \<times> (nat_error, 's peer_connection) result" where
  "connect env le peer node config = connect_with_runtime env le peer node config nat_runtime_default"

section \<open>What the ladder contains\<close>

text \<open>The inputs a tier needs.\<close>

fun tier_available :: "'tun nat_runtime \<Rightarrow> traversal_kind \<Rightarrow> bool" where
  "tier_available rt Direct = True"
| "tier_available rt Upnp = (rt_local_port rt \<noteq> None)"
| "tier_available rt NatPmp = (rt_local_port rt \<noteq> None \<and> rt_gateway_v4 rt \<noteq> None)"
| "tier_available rt Pcp = (rt_local_port rt \<noteq> None \<and> rt_gateway_v4 rt \<noteq> None \<and> rt_client_ip rt \<noteq> None)"
| "tier_available rt HolePunch = (rt_hole_punch rt \<noteq> None \<and> rt_my_external_addr rt \<noteq> None)"
| "tier_available rt Relayed = (rt_relayed rt \<noteq> None)"

lemmas method_records = direct_method_def upnp_method_of_def natpmp_method_def pcp_method_of_def
  hole_punch_method_def relayed_dial_method_def

lemmas methods_honest = direct_method_honest upnp_method_of_honest natpmp_method_honest pcp_method_of_honest
  hole_punch_method_honest relayed_dial_method_honest

text \<open>Each tier appends its own part to the list.\<close>

lemma append_part:
  "(if c then ms @ xs else ms) = ms @ (if c then xs else [])"
  "(case opt of None \<Rightarrow> ms | Some x \<Rightarrow> ms @ f x) = ms @ (case opt of None \<Rightarrow> [] | Some x \<Rightarrow> f x)"
  by (simp_all split: option.split)

definition part :: "'bp nat_config \<Rightarrow> traversal_kind \<Rightarrow> 'a option \<Rightarrow> ('a \<Rightarrow> traversal_method) \<Rightarrow> traversal_method list" where
  "part config kind input method = (if is_enabled config kind then case input of None \<Rightarrow> [] | Some x \<Rightarrow> [method x] else [])"

definition both :: "'a option \<Rightarrow> 'b option \<Rightarrow> ('a \<times> 'b) option" where
  "both x y = (case x of None \<Rightarrow> None | Some a \<Rightarrow> map_option (Pair a) y)"

lemma both_simps [simp]: "both (Some a) (Some b) = Some (a, b)" "both None y = None" "both x None = None"
  by (simp_all add: both_def split: option.split)

lemma part_kinds: "(\<And>x. tm_kind (method x) = kind) \<Longrightarrow> map tm_kind (part config kind input method) =
    List.filter (\<lambda>k. is_enabled config k \<and> input \<noteq> None) [kind]"
  by (simp add: part_def split: option.split)

lemma part_honest: "(\<And>x. honest_method (method x)) \<Longrightarrow> list_all honest_method (part config kind input method)"
  by (simp add: part_def split: option.split)

lemma compose_ladder_parts:
  "compose_ladder le config rt =
     part config Direct (Some ()) (\<lambda>_. direct_method)
   @ part config Upnp (rt_local_port rt) (\<lambda>port. upnp_method_of (upnp_new
       (case rt_igd rt of Some g \<Rightarrow> g | None \<Rightarrow> real_igd_add_port_mapping (le_igd_lib le) 2000) port))
   @ part config NatPmp (both (rt_local_port rt) (rt_gateway_v4 rt)) (\<lambda>(port, gw). natpmp_method (le_tie le) (le_natpmp_udp le) (nat_pmp_new gw port))
   @ part config Pcp (both (rt_local_port rt) (both (rt_gateway_v4 rt) (rt_client_ip rt)))
       (\<lambda>(port, gw, ip). pcp_method_of (le_tie le) (le_pcp_udp le) (le_new_nonce le) (pcp_new gw port ip))
   @ part config HolePunch (both (rt_hole_punch rt) (rt_my_external_addr rt)) (\<lambda>(co, addr). hole_punch_method (le_to_hex le) co addr)
   @ part config Relayed (rt_relayed rt) relayed_dial_method"
proof -
  have both_case: "(case both x y of None \<Rightarrow> [] | Some p \<Rightarrow> [m p]) =
      (case x of None \<Rightarrow> [] | Some a \<Rightarrow> (case y of None \<Rightarrow> [] | Some b \<Rightarrow> [m (a, b)]))" for x y and m :: "_ \<Rightarrow> traversal_method"
    by (simp split: option.split)
  have both_case3: "(case both x (both y z) of None \<Rightarrow> [] | Some p \<Rightarrow> [m p]) =
      (case x of None \<Rightarrow> [] | Some a \<Rightarrow> (case y of None \<Rightarrow> [] | Some b \<Rightarrow> (case z of None \<Rightarrow> [] | Some c \<Rightarrow> [m (a, b, c)])))"
    for x y z and m :: "_ \<Rightarrow> traversal_method"
    by (simp split: option.split)
  show ?thesis
    by (simp only: compose_ladder_def Let_def prod.case append_part append_Nil append_assoc part_def both_case3 both_case option.case)
qed

lemma compose_ladder_kinds:
  "map tm_kind (compose_ladder le config runtime) =
     List.filter (\<lambda>k. is_enabled config k \<and> tier_available runtime k) [Direct, Upnp, NatPmp, Pcp, HolePunch, Relayed]"
proof -
  have cons: "List.filter P (x # y # xs) = List.filter P [x] @ List.filter P (y # xs)" for P and x y :: traversal_kind and xs
    by simp
  have single: "List.filter P [k] = List.filter Q [k]" if "P k = Q k" for P Q and k :: traversal_kind
    using that by simp
  have some: "both x y = Some p \<longleftrightarrow> x = Some (fst p) \<and> y = Some (snd p)" for x y p by (cases p) (auto simp: both_def split: option.split)
  show ?thesis
    unfolding compose_ladder_parts map_append cons
    by (intro arg_cong2 [of _ _ _ _ "(@)"]; subst part_kinds)
      (auto simp: method_records some split: prod.split simp del: filter.simps intro!: single)
qed

lemma compose_ladder_honest: "\<forall>m \<in> set (compose_ladder le config runtime). honest_method m"
proof -
  have "list_all honest_method (compose_ladder le config runtime)"
    unfolding compose_ladder_parts list_all_append
    by (intro conjI part_honest) (auto simp: methods_honest split: prod.split)
  then show ?thesis by (simp add: list_all_iff)
qed

lemma sorted_filter_ranks: "sorted (map rank (List.filter P [Direct, Upnp, NatPmp, Pcp, HolePunch, Relayed]))"
  by simp

lemma compose_ladder_order: "attempt_order (compose_ladder le config runtime) = compose_ladder le config runtime"
proof -
  have "map (\<lambda>m. rank (tm_kind m)) (compose_ladder le config runtime) = map rank (map tm_kind (compose_ladder le config runtime))"
    by simp
  then have "sorted (map (\<lambda>m. rank (tm_kind m)) (compose_ladder le config runtime))"
    by (simp only: compose_ladder_kinds sorted_filter_ranks)
  then show ?thesis by (rule sort_key_id_if_sorted)
qed

section \<open>Properties\<close>

text \<open>The tiers a configuration and a runtime give, in rank order.\<close>

definition composed_tiers :: "'bp nat_config \<Rightarrow> 'tun nat_runtime \<Rightarrow> traversal_kind list" where
  "composed_tiers config runtime =
     List.filter (\<lambda>k. is_enabled config k \<and> tier_available runtime k) [Direct, Upnp, NatPmp, Pcp, HolePunch, Relayed]"

lemma composed_tiers_empty: "compose_ladder le config runtime = [] \<longleftrightarrow> composed_tiers config runtime = []"
  using compose_ladder_kinds [of le config runtime] by (metis composed_tiers_def map_is_Nil_conv)

text \<open>The composed ladder is honest: it holds exactly one method for every tier that is enabled AND has its
  inputs, in rank order (direct first, relayed last), already in the order the strategy uses, and each
  method keeps the trait's contract.\<close>

theorem ladder_composition:
  "map tm_kind (compose_ladder le config runtime) = composed_tiers config runtime
   \<and> attempt_order (compose_ladder le config runtime) = compose_ladder le config runtime
   \<and> list_all honest_method (compose_ladder le config runtime)"
  using compose_ladder_kinds compose_ladder_order compose_ladder_honest unfolding composed_tiers_def list_all_iff by blast

text \<open>C21.  \<open>connect_with_runtime\<close> end to end: it answers within two timeouts per composed tier; it fails with
  \<open>NoMethodsEnabled\<close> exactly when no tier could be composed and otherwise with one error per composed tier
  in rank order; and a connection carries the asked-for identity, which is not this node's own, and a composed
  tier.\<close>

theorem connect_with_runtime_correct:
  assumes "spki_pinned env"
  shows "fst (connect_with_runtime env le peer node config runtime)
      \<le> 2 * length (composed_tiers config runtime) * per_method_timeout config
   \<and> (case snd (connect_with_runtime env le peer node config runtime) of
        Inl NoMethodsEnabled \<Rightarrow> composed_tiers config runtime = []
      | Inl (AllMethodsFailed errors) \<Rightarrow> map me_kind errors = composed_tiers config runtime \<and> errors \<noteq> []
      | Inl _ \<Rightarrow> False
      | Inr conn \<Rightarrow> pc_peer_id conn = pt_peer_id peer \<and> pc_peer_id conn \<noteq> node_peer_id env node
          \<and> pc_method conn \<in> set (composed_tiers config runtime))"
proof (cases "composed_tiers config runtime = []")
  case True
  then show ?thesis using composed_tiers_empty [of le config runtime] by (simp add: connect_with_runtime_def Let_def)
next
  case False
  let ?ms = "compose_ladder le config runtime"
  have ms: "?ms \<noteq> []" using False composed_tiers_empty by blast
  let ?self = "runtime_dialer env node config runtime"
  have conn_eq: "connect_with_runtime env le peer node config runtime =
      connect_with_strategy (le_tie le) peer ?ms (mtls_dial env ?self) (per_method_timeout config)"
    using ms by (simp add: connect_with_runtime_def Let_def)
  have kinds: "map tm_kind ?ms = composed_tiers config runtime"
    by (simp only: compose_ladder_kinds composed_tiers_def)
  then have len: "length ?ms = length (composed_tiers config runtime)" by (metis length_map)
  note tagged = strategy_tagged [OF compose_ladder_honest [of le config runtime] mtls_dial_honest [of env ?self],
      of "le_tie le" peer "per_method_timeout config", unfolded compose_ladder_order kinds]
  have bound: "fst (connect_with_runtime env le peer node config runtime)
      \<le> 2 * length (composed_tiers config runtime) * per_method_timeout config"
    unfolding conn_eq len [symmetric] by (rule connect_with_strategy_bound)
  show ?thesis
  proof (cases "snd (connect_with_runtime env le peer node config runtime)")
    case (Inl e)
    with tagged ms False bound show ?thesis by (cases e) (auto simp: conn_eq)
  next
    case (Inr conn)
    then obtain out d where "mtls_dial env ?self peer out = Some (d, Ok conn)"
      using strategy_success_dialed conn_eq by metis
    then obtain stream addr d' where h: "handshake_over env ?self peer (mo_kind out) stream addr = Some (d', Ok conn)"
      and ne: "pt_peer_id peer \<noteq> node_peer_id env node"
      using mtls_dial_Ok by (metis runtime_dialer_node)
    have "pc_method conn \<in> tm_kind ` set ?ms" using tagged Inr by (simp add: conn_eq)
    then have "pc_method conn \<in> set (composed_tiers config runtime)" using kinds by (metis set_map)
    with handshake_over_pinned [OF assms h] ne Inr bound show ?thesis by simp
  qed
qed

text \<open>The environment of the witnesses: no gateway answers.\<close>

definition silent_udp :: udp_env where
  "silent_udp = \<lparr> udp_bind = Ok (), udp_send = (\<lambda>_ _. Ok ()), udp_arrivals = (\<lambda>_. []) \<rparr>"

definition sample_ladder_env :: ladder_env where
  "sample_ladder_env = \<lparr> le_tie = False, le_to_hex = (\<lambda>_. []), le_natpmp_udp = silent_udp, le_pcp_udp = silent_udp,
     le_new_nonce = replicate 12 0,
     le_igd_lib = \<lparr> search_gateway = (\<lambda>_. None),
       igd_probe = \<lparr> probe_bind = (\<lambda>_. None), probe_connect = (\<lambda>_ _. None), probe_local_addr = (\<lambda>_. None) \<rparr> \<rparr> \<rparr>"

theorem connect_with_runtime_correct_witness:
  "\<exists>conn. snd (connect_with_runtime open_env sample_ladder_env (with_addr [2] (SocketAddr (IpV4 7) 8) []) [1]
       (nat_config_default [] ()) nat_runtime_default) = Ok conn \<and> pc_peer_id conn = [2] \<and> pc_method conn = Direct"
proof -
  let ?r = "connect_with_runtime open_env sample_ladder_env (with_addr [2] (SocketAddr (IpV4 7) 8) []) [1]
       (nat_config_default [] ()) nat_runtime_default"
  have ladder: "compose_ladder sample_ladder_env (nat_config_default [] ()) nat_runtime_default = [direct_method]"
    by (simp add: compose_ladder_def nat_config_default_def nat_runtime_default_def is_enabled_def Let_def)
  obtain conn where conn: "snd ?r = Ok conn"
    unfolding connect_with_runtime_def ladder Let_def
    by (simp add: connect_with_strategy_def strategy_loop_Cons try_method_def run_bounded_def
        timeout_def direct_method_def direct_attempt_def with_addr_def with_addrs_def ready_def in_time_def
        mtls_dial_def runtime_dialer_def open_env_def mtls_dialer_new_def with_binding_policy_def nat_runtime_default_def nat_config_default_def
        await_ok_def await_def map_future_def handshake_over_def Let_def sample_ladder_env_def)
  have tiers: "composed_tiers (nat_config_default [] ()) (nat_runtime_default :: unit nat_runtime) = [Direct]"
    by (simp add: composed_tiers_def nat_config_default_def nat_runtime_default_def is_enabled_def)
  from connect_with_runtime_correct [OF open_env_pinned, of sample_ladder_env "with_addr [2] (SocketAddr (IpV4 7) 8) []" "[1]"
      "nat_config_default [] ()" nat_runtime_default]
  show ?thesis unfolding conn tiers by (simp add: with_addr_def with_addrs_def)
qed

end
