(* ===== verification/Relay_Basics.thy ===== *)
theory Relay_Basics imports Traversal begin

text \<open>
  The parts of the relay client without a connection (\<open>src/src/relay.rs\<close>, \<open>src/src/wire.rs\<close>): the wire
  messages, the reconnect backoff, the reservation's state byte, the bounded set of discovered peers, the
  opt-out token and the endpoint parser.
\<close>

section \<open>Wire messages\<close>

record relay_peer_info =
  rpi_peer_id :: string
  rpi_network_id :: string
  rpi_protocol_version :: u32
  rpi_connected_at :: u64
  rpi_last_seen :: u64
  rpi_addresses :: "socket_addr list"

definition relay_peer_info_new :: "u64 \<Rightarrow> string \<Rightarrow> string \<Rightarrow> u32 \<Rightarrow> relay_peer_info" where
  "relay_peer_info_new now peer_id network_id protocol_version =
    \<lparr> rpi_peer_id = peer_id, rpi_network_id = network_id, rpi_protocol_version = protocol_version,
      rpi_connected_at = now, rpi_last_seen = now, rpi_addresses = [] \<rparr>"

record dht_record_entry =
  content_key :: string
  providers :: nat

datatype relay_message =
    Register string string u32 "socket_addr list"
  | RegisterAck bool string nat
  | Unregister string
  | RelayGossipMessage string string bytes u64
  | Broadcast string bytes "string list"
  | PeerConnected relay_peer_info
  | PeerDisconnected string
  | GetPeers "string option"
  | Peers "relay_peer_info list"
  | Ping u64
  | Pong u64
  | HolePunchRequest string string socket_addr
  | HolePunchCoordinate string socket_addr
  | HolePunchResult string bool
  | GetDhtRecords nat
  | DhtRecords "dht_record_entry list" nat bool
  | RelayError u32 string

section \<open>Constants\<close>

definition DEFAULT_NETWORK_ID :: string where "DEFAULT_NETWORK_ID = ''DIG_MAINNET''"
definition RELAY_PROTOCOL_VERSION :: u32 where "RELAY_PROTOCOL_VERSION = 1"
definition BASE_BACKOFF_SECS :: u64 where "BASE_BACKOFF_SECS = 5"
definition MAX_BACKOFF_SECS :: u64 where "MAX_BACKOFF_SECS = 300"
definition PING_INTERVAL_SECS :: u64 where "PING_INTERVAL_SECS = 30"
definition DISCOVERY_INTERVAL_SECS :: u64 where "DISCOVERY_INTERVAL_SECS = 60"
definition MAX_KNOWN_PEERS :: nat where "MAX_KNOWN_PEERS = 1024"
definition MAX_RELAY_PAYLOAD :: nat where "MAX_RELAY_PAYLOAD = 2 ^ 20"
definition RELAY_TUNNEL_INBOUND_CAP :: nat where "RELAY_TUNNEL_INBOUND_CAP = 256"
definition MAX_RELAY_TUNNELS :: nat where "MAX_RELAY_TUNNELS = 256"
definition INBOUND_ACCEPT_CAP :: nat where "INBOUND_ACCEPT_CAP = 64"

text \<open>In milliseconds.\<close>

definition STALE_CIRCUIT_IDLE :: nat where "STALE_CIRCUIT_IDLE = 30000"

definition FATAL_RELAY_ERROR_CODES :: "u32 list" where
  "FATAL_RELAY_ERROR_CODES = [1, 4, 5, 6, 7]"

definition relay_error_is_fatal :: "u32 \<Rightarrow> bool" where
  "relay_error_is_fatal code \<longleftrightarrow> code \<in> set FATAL_RELAY_ERROR_CODES"

section \<open>Backoff\<close>

definition backoff_secs_with :: "u32 \<Rightarrow> u64 \<Rightarrow> u64 \<Rightarrow> u64 may_panic" where
  "backoff_secs_with consecutive_failures base cap =
    (let shifted = (case checked_shl base (unat consecutive_failures) of Some w \<Rightarrow> w | None \<Rightarrow> cap)
     in ord_clamp base cap shifted)"

definition backoff_secs :: "u32 \<Rightarrow> u64 may_panic" where
  "backoff_secs consecutive_failures = backoff_secs_with consecutive_failures BASE_BACKOFF_SECS MAX_BACKOFF_SECS"

record backoff =
  base_secs :: u64
  cap_secs :: u64

definition backoff_default :: backoff where
  "backoff_default = \<lparr> base_secs = BASE_BACKOFF_SECS, cap_secs = MAX_BACKOFF_SECS \<rparr>"

lemma backoff_secs_with_bounds:
  "backoff_secs_with n base cap = Some d \<Longrightarrow> base \<le> d \<and> d \<le> cap"
  by (auto simp: backoff_secs_with_def Let_def dest: ord_clamp_bounds)

lemma backoff_secs_with_total: "base \<le> cap \<Longrightarrow> \<exists>d. backoff_secs_with n base cap = Some d"
  by (simp add: backoff_secs_with_def ord_clamp_total)

section \<open>The reservation's state\<close>

datatype relay_state = Disabled | Connecting | Connected | Disconnected

fun as_str :: "relay_state \<Rightarrow> string" where
  "as_str Disabled = ''disabled''"
| "as_str Connecting = ''connecting''"
| "as_str Connected = ''connected''"
| "as_str Disconnected = ''disconnected''"

fun to_u8 :: "relay_state \<Rightarrow> u8" where
  "to_u8 Disabled = 0"
| "to_u8 Connecting = 1"
| "to_u8 Connected = 2"
| "to_u8 Disconnected = 3"

definition from_u8 :: "u8 \<Rightarrow> relay_state" where
  "from_u8 v = (if v = 0 then Disabled else if v = 1 then Connecting else if v = 2 then Connected else Disconnected)"

lemma from_to_u8 [simp]: "from_u8 (to_u8 s) = s"
  by (cases s) (simp_all add: from_u8_def)

lemma to_u8_inject [simp]: "to_u8 s = to_u8 t \<longleftrightarrow> s = t"
  by (metis from_to_u8)

section \<open>Discovered peers\<close>

record discovered_peers =
  dp_order :: "relay_peer_info list"
  dp_ids :: "string set"

definition dp_default :: discovered_peers where
  "dp_default = \<lparr> dp_order = [], dp_ids = {} \<rparr>"

definition dp_insert :: "discovered_peers \<Rightarrow> relay_peer_info \<Rightarrow> discovered_peers" where
  "dp_insert self peer =
    (if MAX_KNOWN_PEERS \<le> length (dp_order self) then self
     else if rpi_peer_id peer \<in> dp_ids self then self
     else self\<lparr> dp_ids := insert (rpi_peer_id peer) (dp_ids self), dp_order := dp_order self @ [peer] \<rparr>)"

definition dp_remove :: "discovered_peers \<Rightarrow> string \<Rightarrow> discovered_peers" where
  "dp_remove self peer_id =
    (if peer_id \<in> dp_ids self
     then self\<lparr> dp_ids := dp_ids self - {peer_id}, dp_order := List.filter (\<lambda>p. rpi_peer_id p \<noteq> peer_id) (dp_order self) \<rparr>
     else self)"

definition dp_clear :: "discovered_peers \<Rightarrow> discovered_peers" where
  "dp_clear self = self\<lparr> dp_order := [], dp_ids := {} \<rparr>"

definition dp_replace :: "discovered_peers \<Rightarrow> relay_peer_info list \<Rightarrow> discovered_peers" where
  "dp_replace self peers = foldl dp_insert (dp_clear self) peers"

text \<open>Lockstep: \<open>ids\<close> is the set of identities in \<open>order\<close>, each at most once, and the set is bounded.\<close>

definition dp_ok :: "discovered_peers \<Rightarrow> bool" where
  "dp_ok self \<longleftrightarrow> dp_ids self = rpi_peer_id ` set (dp_order self) \<and> distinct (map rpi_peer_id (dp_order self)) \<and>
     length (dp_order self) \<le> MAX_KNOWN_PEERS"

lemma dp_ok_default [intro]: "dp_ok dp_default"
  by (simp add: dp_ok_def dp_default_def)

lemma dp_ok_clear [intro]: "dp_ok (dp_clear self)"
  by (simp add: dp_ok_def dp_clear_def)

lemma dp_ok_insert [intro]: "dp_ok self \<Longrightarrow> dp_ok (dp_insert self peer)"
  by (auto simp: dp_ok_def dp_insert_def)

lemma dp_ok_foldl: "dp_ok self \<Longrightarrow> dp_ok (foldl dp_insert self peers)"
  by (induction peers arbitrary: self) auto

lemma dp_ok_replace [intro]: "dp_ok (dp_replace self peers)"
  by (simp add: dp_replace_def dp_ok_foldl dp_ok_clear)

lemma distinct_map_filter_other: "distinct (map f xs) \<Longrightarrow> distinct (map f (List.filter P xs))"
  by (induction xs) auto

lemma dp_ok_remove [intro]:
  assumes "dp_ok self" shows "dp_ok (dp_remove self peer_id)"
proof -
  have "length (List.filter (\<lambda>p. rpi_peer_id p \<noteq> peer_id) (dp_order self)) \<le> MAX_KNOWN_PEERS"
    using assms by (intro order_trans [OF length_filter_le]) (simp add: dp_ok_def)
  with assms show ?thesis by (auto simp: dp_ok_def dp_remove_def distinct_map_filter_other)
qed

text \<open>The first \<open>n\<close> elements whose key was not seen before.\<close>

fun first_distinct :: "('a \<Rightarrow> 'k) \<Rightarrow> 'k set \<Rightarrow> 'a list \<Rightarrow> 'a list" where
  "first_distinct f seen [] = []"
| "first_distinct f seen (x # xs) =
    (if f x \<in> seen then first_distinct f seen xs else x # first_distinct f (insert (f x) seen) xs)"

lemma dp_insert_foldl:
  "dp_ok self \<Longrightarrow> dp_order (foldl dp_insert self peers) =
     dp_order self @ take (MAX_KNOWN_PEERS - length (dp_order self)) (first_distinct rpi_peer_id (dp_ids self) peers)"
proof (induction peers arbitrary: self)
  case (Cons p peers)
  note IH = Cons.IH [OF dp_ok_insert [OF Cons.prems]]
  consider "MAX_KNOWN_PEERS \<le> length (dp_order self)"
    | "length (dp_order self) < MAX_KNOWN_PEERS" "rpi_peer_id p \<in> dp_ids self"
    | "length (dp_order self) < MAX_KNOWN_PEERS" "rpi_peer_id p \<notin> dp_ids self" by linarith
  then show ?case
  proof cases
    case 3
    then have "MAX_KNOWN_PEERS - length (dp_order self) = Suc (MAX_KNOWN_PEERS - Suc (length (dp_order self)))" by simp
    with 3 IH [of p] show ?thesis by (simp add: dp_insert_def)
  qed (use IH [of p] in \<open>simp_all add: dp_insert_def\<close>)
qed simp

section \<open>The opt-out token\<close>

text \<open>The UTF-8 encodings of the white space that \<open>str::trim\<close> strips.\<close>

definition whitespace_encodings :: "string list" where
  [rust_std]: "whitespace_encodings =
    [[CHR 0x09], [CHR 0x0A], [CHR 0x0B], [CHR 0x0C],
     [CHR 0x0D], [CHR 0x20], [CHR 0xC2, CHR 0x85], [CHR 0xC2, CHR 0xA0],
     [CHR 0xE1, CHR 0x9A, CHR 0x80], [CHR 0xE2, CHR 0x80, CHR 0x80], [CHR 0xE2, CHR 0x80, CHR 0x81], [CHR 0xE2, CHR 0x80, CHR 0x82],
     [CHR 0xE2, CHR 0x80, CHR 0x83], [CHR 0xE2, CHR 0x80, CHR 0x84], [CHR 0xE2, CHR 0x80, CHR 0x85], [CHR 0xE2, CHR 0x80, CHR 0x86],
     [CHR 0xE2, CHR 0x80, CHR 0x87], [CHR 0xE2, CHR 0x80, CHR 0x88], [CHR 0xE2, CHR 0x80, CHR 0x89], [CHR 0xE2, CHR 0x80, CHR 0x8A],
     [CHR 0xE2, CHR 0x80, CHR 0xA8], [CHR 0xE2, CHR 0x80, CHR 0xA9], [CHR 0xE2, CHR 0x80, CHR 0xAF], [CHR 0xE2, CHR 0x81, CHR 0x9F],
     [CHR 0xE3, CHR 0x80, CHR 0x80]]"

text \<open>Strips prefixes of the list \<open>ws\<close> as long as there is one; the fuel is the length of the string.\<close>

fun strip_prefixes :: "nat \<Rightarrow> string list \<Rightarrow> string \<Rightarrow> string" where
  "strip_prefixes 0 ws s = s"
| "strip_prefixes (Suc n) ws s =
    (case List.find (\<lambda>w. take (length w) s = w) ws of None \<Rightarrow> s | Some w \<Rightarrow> strip_prefixes n ws (drop (length w) s))"

definition str_trim :: "string \<Rightarrow> string" where
  [rust_std]: "str_trim s =
    (let s = strip_prefixes (length s) whitespace_encodings s in
     rev (strip_prefixes (length s) (map rev whitespace_encodings) (rev s)))"

definition ascii_lower :: "char \<Rightarrow> char" where
  [rust_std]: "ascii_lower c = (let n = of_char c :: nat in if 65 \<le> n \<and> n \<le> 90 then char_of (n + 32) else c)"

definition eq_ignore_ascii_case :: "string \<Rightarrow> string \<Rightarrow> bool" where
  [rust_std]: "eq_ignore_ascii_case s t \<longleftrightarrow> map ascii_lower s = map ascii_lower t"

definition is_off_token :: "string \<Rightarrow> bool" where
  "is_off_token v \<longleftrightarrow> (let v = str_trim v in eq_ignore_ascii_case v ''off'' \<or> eq_ignore_ascii_case v ''disabled'')"

text \<open>The environment variable is the argument \<open>var\<close>, the canonical URL of the constants crate \<open>canonical\<close>.\<close>

definition relay_url_from_env :: "string \<Rightarrow> string option \<Rightarrow> string" where
  "relay_url_from_env canonical var =
    (case var of
       None \<Rightarrow> canonical
     | Some s \<Rightarrow> if str_trim s = [] then canonical else if is_off_token s then canonical else s)"

definition relay_enabled :: "string option \<Rightarrow> bool" where
  "relay_enabled var = (case var of Some v \<Rightarrow> \<not> is_off_token v | None \<Rightarrow> True)"

section \<open>Endpoint\<close>

fun split_once :: "string \<Rightarrow> string \<Rightarrow> (string \<times> string) option" where
  "split_once pat [] = (if pat = [] then Some ([], []) else None)"
| "split_once pat (c # s) =
    (if take (length pat) (c # s) = pat then Some ([], drop (length pat) (c # s))
     else map_option (\<lambda>(a, b). (c # a, b)) (split_once pat s))"

definition rsplit_once_char :: "char \<Rightarrow> string \<Rightarrow> (string \<times> string) option" where
  [rust_std]: "rsplit_once_char c s = map_option (\<lambda>(a, b). (rev b, rev a)) (split_once [c] (rev s))"

definition is_digit :: "char \<Rightarrow> bool" where
  "is_digit c \<longleftrightarrow> (48 :: nat) \<le> of_char c \<and> of_char c \<le> (57 :: nat)"

fun digits_value :: "nat \<Rightarrow> string \<Rightarrow> nat option" where
  "digits_value acc [] = Some acc"
| "digits_value acc (c # s) = (if is_digit c then digits_value (acc * 10 + (of_char c - 48)) s else None)"

text \<open>\<open>str::parse::<u16>\<close>: an optional plus sign, at least one digit, no overflow.\<close>

definition parse_u16 :: "string \<Rightarrow> u16 option" where
  [rust_std]: "parse_u16 s =
    (let digits = (case s of c # cs \<Rightarrow> if c = CHR 0x2B then cs else s | [] \<Rightarrow> []) in
     if digits = [] then None
     else case digits_value 0 digits of None \<Rightarrow> None | Some n \<Rightarrow> if n < 2 ^ 16 then Some (of_nat n) else None)"

record relay_endpoint =
  re_host :: string
  re_port :: u16

definition split_authority :: "string \<Rightarrow> u16 \<Rightarrow> (string, string \<times> u16) result" where
  "split_authority authority default_port =
    (case authority of
       c # stripped \<Rightarrow>
         if c = CHR ''['' then
           (case split_once '']'' stripped of
              None \<Rightarrow> Err (''malformed IPv6 authority: '' @ authority)
            | Some (h, after) \<Rightarrow>
                (case after of
                   d # p \<Rightarrow> if d = CHR '':'' then
                       (case parse_u16 p of Some port \<Rightarrow> Ok (h, port) | None \<Rightarrow> Err (''bad relay port: '' @ after))
                     else Ok (h, default_port)
                 | [] \<Rightarrow> Ok (h, default_port)))
         else
           (case rsplit_once_char CHR '':'' authority of
              Some (h, p) \<Rightarrow> (case parse_u16 p of Some port \<Rightarrow> Ok (h, port) | None \<Rightarrow> Err (''bad relay port: '' @ p))
            | None \<Rightarrow> Ok (authority, default_port))
     | [] \<Rightarrow> Ok ([], default_port))"

definition parse_relay_endpoint :: "string \<Rightarrow> (string, relay_endpoint) result" where
  "parse_relay_endpoint endpoint =
    (case split_once ''://'' endpoint of
       None \<Rightarrow> Err (''relay endpoint missing scheme: '' @ endpoint)
     | Some (scheme, rest) \<Rightarrow>
         let lower = map ascii_lower scheme in
         (case (if lower = ''ws'' then Some 80 else if lower = ''wss'' then Some 443 else None) of
            None \<Rightarrow> Err (''unsupported relay scheme: '' @ lower)
          | Some default_port \<Rightarrow>
              let authority = takeWhile (\<lambda>c. c \<notin> {CHR ''/'', CHR ''?'', CHR 0x23}) rest;
                  authority = (case rsplit_once_char CHR ''@'' authority of Some (_, h) \<Rightarrow> h | None \<Rightarrow> authority) in
              (case split_authority authority default_port of
                 Inl e \<Rightarrow> Err e
               | Inr (host, port) \<Rightarrow>
                   if host = [] then Err (''relay endpoint missing host: '' @ endpoint)
                   else Ok \<lparr> re_host = host, re_port = port \<rparr>)))"

section \<open>Facts about the schedule\<close>

lemma push_five_small: "n < 62 \<Longrightarrow> unat (push_bit n (5 :: u64)) = 5 * 2 ^ n"
proof -
  assume "n < 62"
  then have "(2 :: nat) ^ n \<le> 2 ^ 61" by (intro power_increasing) simp_all
  then have "5 * (2 :: nat) ^ n < 2 ^ 64" by simp
  moreover have "push_bit n (5 :: u64) = of_nat (5 * 2 ^ n)" by (simp add: push_bit_eq_mult)
  ultimately show ?thesis by (simp only: unat_of_nat) (simp add: take_bit_nat_eq_self)
qed

lemma backoff_secs_value: "\<exists>d. backoff_secs n = Some d \<and> unat d = min (5 * 2 ^ unat n) 300"
proof -
  have c: "BASE_BACKOFF_SECS = 5" "MAX_BACKOFF_SECS = 300" by (simp_all add: BASE_BACKOFF_SECS_def MAX_BACKOFF_SECS_def)
  let ?k = "unat n"
  consider "?k < 7" | "7 \<le> ?k" "?k < 62" | "?k = 62" | "?k = 63" | "64 \<le> ?k" by linarith
  then show ?thesis
  proof cases
    case 1
    then have "?k \<in> {0, 1, 2, 3, 4, 5, 6}" by auto
    then show ?thesis
      by (auto simp: backoff_secs_def backoff_secs_with_def c checked_shl_def ord_clamp_def)
  next
    case 2
    then have "(2 :: nat) ^ 7 \<le> 2 ^ ?k" by (intro power_increasing) simp_all
    then have big: "640 \<le> 5 * (2 :: nat) ^ ?k" by simp
    then have "\<not> push_bit ?k (5 :: u64) < 5" "300 < push_bit ?k (5 :: u64)"
      using push_five_small [OF 2(2)] by (simp_all add: word_less_nat_alt)
    with 2 big show ?thesis
      by (simp add: backoff_secs_def backoff_secs_with_def c checked_shl_def ord_clamp_def)
  next
    case 3
    then show ?thesis by (simp add: backoff_secs_def backoff_secs_with_def c checked_shl_def ord_clamp_def)
  next
    case 4
    then show ?thesis by (simp add: backoff_secs_def backoff_secs_with_def c checked_shl_def ord_clamp_def)
  next
    case 5
    then have "(2 :: nat) ^ 64 \<le> 2 ^ ?k" by (intro power_increasing) simp_all
    with 5 show ?thesis by (simp add: backoff_secs_def backoff_secs_with_def c checked_shl_def ord_clamp_def)
  qed
qed

section \<open>Facts about the endpoint parser\<close>

lemma split_once_char: "c \<notin> set x \<Longrightarrow> split_once [c] (x @ c # y) = Some (x, y)"
  by (induction x) auto

lemma split_once_char_None: "c \<notin> set x \<Longrightarrow> split_once [c] x = None"
  by (induction x) auto

lemma rsplit_once_char: "c \<notin> set y \<Longrightarrow> rsplit_once_char c (x @ c # y) = Some (x, y)"
  using split_once_char [of c "rev y" "rev x"] by (simp add: rsplit_once_char_def)

lemma rsplit_once_char_None: "c \<notin> set x \<Longrightarrow> rsplit_once_char c x = None"
  by (simp add: rsplit_once_char_def split_once_char_None)

lemma digits_value_append:
  "digits_value acc (s @ t) = (case digits_value acc s of None \<Rightarrow> None | Some a \<Rightarrow> digits_value a t)"
  by (induction acc s rule: digits_value.induct) auto

lemma digit_char: "k < 10 \<Longrightarrow> (of_char (char_of (48 + k) :: char) :: nat) = 48 + k"
  by (simp add: of_char_of)

lemma digits_value_show_nat: "digits_value 0 (show_nat n) = Some n"
proof (induction n rule: show_nat.induct)
  case (1 n)
  show ?case
  proof (cases "n < 10")
    case True
    then show ?thesis by (subst show_nat.simps) (simp add: is_digit_def digit_char)
  next
    case False
    with 1 show ?thesis by (subst show_nat.simps) (simp add: digits_value_append is_digit_def digit_char)
  qed
qed

lemma show_nat_digits: "c \<in> set (show_nat n) \<Longrightarrow> is_digit c"
proof (induction n rule: show_nat.induct)
  case (1 n)
  show ?case
  proof (cases "n < 10")
    case True
    with 1(2) show ?thesis by (subst (asm) show_nat.simps) (simp add: is_digit_def digit_char)
  next
    case False
    with 1 show ?thesis by (subst (asm) (2) show_nat.simps) (auto simp: is_digit_def digit_char)
  qed
qed

lemma show_nat_not_Nil [simp]: "show_nat n \<noteq> []"
  by (subst show_nat.simps) simp

lemma not_digits [simp]:
  "\<not> is_digit CHR '':''" "\<not> is_digit CHR ''@''" "\<not> is_digit CHR ''/''" "\<not> is_digit CHR ''?''" "\<not> is_digit CHR 0x23"
  "\<not> is_digit CHR 0x2B" "\<not> is_digit CHR '']''" "\<not> is_digit CHR ''[''"
  by (simp_all add: is_digit_def)

lemma show_nat_avoids: "\<not> is_digit c \<Longrightarrow> c \<notin> set (show_nat n)"
  using show_nat_digits by blast

lemma parse_u16_show: "parse_u16 (show_nat (unat port)) = Some port"
proof -
  have "unat port < 2 ^ 16" using unsigned_less [of port] by simp
  moreover have "hd (show_nat (unat port)) \<noteq> CHR 0x2B"
    by (metis hd_in_set not_digits(6) show_nat_digits show_nat_not_Nil)
  ultimately show ?thesis
    using digits_value_show_nat [of "unat port"]
    by (auto simp: parse_u16_def Let_def split: list.split)
qed

definition path_marks :: "char set" where
  "path_marks = {CHR ''/'', CHR ''?'', CHR 0x23}"

lemma takeWhile_authority:
  "set a \<inter> path_marks = {} \<Longrightarrow> path = [] \<or> hd path \<in> path_marks \<Longrightarrow>
   takeWhile (\<lambda>c. c \<notin> {CHR ''/'', CHR ''?'', CHR 0x23}) (a @ path) = a"
  by (cases path) (auto simp: path_marks_def takeWhile_append intro!: takeWhile_eq_all_conv [THEN iffD2])

lemma strip_userinfo:
  "CHR ''@'' \<notin> set a \<Longrightarrow> user = [] \<or> (\<exists>u. user = u @ [CHR ''@'']) \<Longrightarrow>
   (case rsplit_once_char CHR ''@'' (user @ a) of Some (_, h) \<Rightarrow> h | None \<Rightarrow> user @ a) = a"
  by (auto simp: rsplit_once_char rsplit_once_char_None)

lemma parse_endpoint_parts:
  assumes "scheme = ''ws'' \<and> dp = 80 \<or> scheme = ''wss'' \<and> dp = 443"
    and "set (user @ a) \<inter> path_marks = {}" "CHR ''@'' \<notin> set a"
    and "user = [] \<or> (\<exists>u. user = u @ [CHR ''@''])" "path = [] \<or> hd path \<in> path_marks"
    and "split_authority a dp = Ok (host, port)" "host \<noteq> []"
  shows "parse_relay_endpoint (scheme @ ''://'' @ user @ a @ path) = Ok \<lparr> re_host = host, re_port = port \<rparr>"
proof -
  have "split_once ''://'' (scheme @ ''://'' @ user @ a @ path) = Some (scheme, (user @ a) @ path)"
    using assms(1) by auto
  moreover have "(if map ascii_lower scheme = ''ws'' then Some 80 else if map ascii_lower scheme = ''wss'' then Some 443 else None) = Some dp"
    using assms(1) by (auto simp: ascii_lower_def)
  ultimately show ?thesis
    using takeWhile_authority [OF assms(2,5)] strip_userinfo [OF assms(3,4)] assms(6,7)
    by (cases "rsplit_once_char CHR ''@'' (user @ a)") (auto simp: parse_relay_endpoint_def Let_def simp del: append_assoc)
qed

section \<open>Properties\<close>

text \<open>The production backoff doubles from 5 seconds and is capped at 300: for every count of failures it is
  exactly \<open>min (5 * 2 ^ n) 300\<close>, so it never panics, never is zero and never shrinks; the bits that the
  64-bit shift loses never show.\<close>

theorem backoff_secs_exact:
  "\<exists>d. backoff_secs n = Some d \<and> unat d = min (5 * 2 ^ unat n) 300"
  by (rule backoff_secs_value)

text \<open>An untrusted relay cannot grow the discovered set: every operation keeps the list and the identity set
  in lockstep, duplicate-free and within 1,024 entries, and a \<open>Peers\<close> frame of any size leaves exactly the
  first 1,024 distinct identities of the frame, in its order.\<close>

theorem discovered_peers_bounded:
  assumes "dp_ok self"
  shows "dp_ok (dp_insert self peer) \<and> dp_ok (dp_remove self peer_id) \<and> dp_ok (dp_clear self) \<and> dp_ok (dp_replace self peers)
    \<and> dp_order (dp_replace self peers) = take MAX_KNOWN_PEERS (first_distinct rpi_peer_id {} peers)"
proof -
  have "dp_order (dp_replace self peers) = take MAX_KNOWN_PEERS (first_distinct rpi_peer_id {} peers)"
    using dp_insert_foldl [OF dp_ok_clear, of self peers] by (simp add: dp_replace_def dp_clear_def)
  with assms show ?thesis by auto
qed

theorem discovered_peers_bounded_witness:
  "dp_order (dp_replace dp_default [relay_peer_info_new 0 ''a'' ''n'' 1, relay_peer_info_new 9 ''a'' ''n'' 1]) =
     [relay_peer_info_new 0 ''a'' ''n'' 1]"
  using discovered_peers_bounded [OF dp_ok_default, of "relay_peer_info_new 0 ''a'' ''n'' 1" "''a''"
      "[relay_peer_info_new 0 ''a'' ''n'' 1, relay_peer_info_new 9 ''a'' ''n'' 1]"]
  by (simp add: relay_peer_info_new_def MAX_KNOWN_PEERS_def)

text \<open>C33.  A rendered endpoint parses back: for either scheme, any userinfo and any path, query or fragment, a
  host name with a decimal port, a bracketed IPv6 literal with a port, and a host name without one (then the
  scheme's default port) yield exactly that host and port.\<close>

theorem parse_relay_endpoint_roundtrip:
  assumes "scheme = ''ws'' \<and> dp = 80 \<or> scheme = ''wss'' \<and> dp = 443"
    and "user = [] \<or> (\<exists>u. user = u @ [CHR ''@''] \<and> set u \<inter> path_marks = {})"
    and "path = [] \<or> hd path \<in> path_marks"
    and "name \<noteq> []" "set name \<inter> (path_marks \<union> {CHR ''@'', CHR '':'', CHR ''[''}) = {}"
    and "v6 \<noteq> []" "set v6 \<inter> (path_marks \<union> {CHR ''@'', CHR '']''}) = {}"
  shows "parse_relay_endpoint (scheme @ ''://'' @ user @ (name @ '':'' @ show_nat (unat port)) @ path)
      = Ok \<lparr> re_host = name, re_port = port \<rparr>
    \<and> parse_relay_endpoint (scheme @ ''://'' @ user @ (''['' @ v6 @ '']:'' @ show_nat (unat port)) @ path)
      = Ok \<lparr> re_host = v6, re_port = port \<rparr>
    \<and> parse_relay_endpoint (scheme @ ''://'' @ user @ name @ path) = Ok \<lparr> re_host = name, re_port = dp \<rparr>"
proof (intro conjI)
  have user: "set user \<inter> path_marks = {}" "user = [] \<or> (\<exists>u. user = u @ [CHR ''@''])"
    using assms(2) by (auto simp: path_marks_def)
  have digits: "set (show_nat (unat port)) \<inter> (path_marks \<union> {CHR ''@'', CHR '':''}) = {}"
    using show_nat_avoids [of _ "unat port"] by (auto simp: path_marks_def)
  have hd_name: "\<And>c cs. name = c # cs \<Longrightarrow> c \<noteq> CHR ''[''" using assms(5) by auto
  have "split_authority (name @ '':'' @ show_nat (unat port)) dp = Ok (name, port)"
    using assms(4) hd_name digits rsplit_once_char [of "CHR '':''" "show_nat (unat port)" name]
    by (cases name) (auto simp: split_authority_def parse_u16_show)
  then show "parse_relay_endpoint (scheme @ ''://'' @ user @ (name @ '':'' @ show_nat (unat port)) @ path)
      = Ok \<lparr> re_host = name, re_port = port \<rparr>"
    using user digits assms(5) by (intro parse_endpoint_parts [OF assms(1)] assms(3,4)) (auto simp: path_marks_def)
  have "split_authority (''['' @ v6 @ '']:'' @ show_nat (unat port)) dp = Ok (v6, port)"
    using assms(7) split_once_char [of "CHR '']''" v6 "CHR '':'' # show_nat (unat port)"]
    by (auto simp: split_authority_def parse_u16_show)
  then show "parse_relay_endpoint (scheme @ ''://'' @ user @ (''['' @ v6 @ '']:'' @ show_nat (unat port)) @ path)
      = Ok \<lparr> re_host = v6, re_port = port \<rparr>"
    using user digits assms(7) by (intro parse_endpoint_parts [OF assms(1)] assms(3,6)) (auto simp: path_marks_def)
  have "split_authority name dp = Ok (name, dp)"
    using assms(4,5) hd_name rsplit_once_char_None [of "CHR '':''" name] by (cases name) (auto simp: split_authority_def)
  then show "parse_relay_endpoint (scheme @ ''://'' @ user @ name @ path) = Ok \<lparr> re_host = name, re_port = dp \<rparr>"
    using user assms(5) by (intro parse_endpoint_parts [OF assms(1)] assms(3,4)) (auto simp: path_marks_def)
qed

theorem parse_relay_endpoint_roundtrip_witness:
  "parse_relay_endpoint (''wss://u@relay.dig.net'' @ '':'' @ show_nat (unat (9450 :: u16)) @ ''/path'') =
     Ok \<lparr> re_host = ''relay.dig.net'', re_port = 9450 \<rparr>"
  using parse_relay_endpoint_roundtrip [of "''wss''" 443 "''u@''" "''/path''" "''relay.dig.net''" "''::1''" 9450]
  by (auto simp: path_marks_def)

text \<open>The opt-out token and the URL agree: the URL is never an opt-out token or blank unless the canonical one
  is, an opt-out value always falls back to the canonical URL and disables the reservation, and any other
  non-blank value is used as it is with the reservation enabled.  A blank value falls back to the canonical
  URL but leaves the reservation enabled.\<close>

theorem relay_env_consistent:
  "(is_off_token v \<longrightarrow> relay_url_from_env canonical (Some v) = canonical \<and> \<not> relay_enabled (Some v))
   \<and> (\<not> is_off_token v \<and> str_trim v \<noteq> [] \<longrightarrow> relay_url_from_env canonical (Some v) = v \<and> relay_enabled (Some v))
   \<and> (str_trim v = [] \<longrightarrow> relay_url_from_env canonical (Some v) = canonical \<and> relay_enabled (Some v))
   \<and> relay_url_from_env canonical None = canonical \<and> relay_enabled None"
  by (auto simp: relay_url_from_env_def relay_enabled_def is_off_token_def eq_ignore_ascii_case_def)

theorem relay_env_consistent_witness:
  "is_off_token '' OFF '' \<and> \<not> relay_enabled (Some '' OFF '') \<and> relay_enabled (Some ''  '')"
proof -
  have "strip_prefixes (length '' OFF '') whitespace_encodings '' OFF '' = ''OFF ''"
    "strip_prefixes (length ''OFF '') (map rev whitespace_encodings) (rev ''OFF '') = ''FFO''"
    "strip_prefixes (length ''  '') whitespace_encodings ''  '' = []"
    by (simp_all add: whitespace_encodings_def)
  then have trim: "str_trim '' OFF '' = ''OFF''" "str_trim ''  '' = []"
    by (simp_all only: str_trim_def Let_def) simp_all
  have off: "is_off_token '' OFF ''"
    by (simp add: is_off_token_def trim eq_ignore_ascii_case_def ascii_lower_def char_of_def bit_nat_def)
  with trim relay_env_consistent [of "'' OFF ''" "[]"] relay_env_consistent [of "''  ''" "[]"] show ?thesis by blast
qed

end
