(* ===== verification/Relay_Tunnels.thy ===== *)
theory Relay_Tunnels imports Relay_Basics begin

text \<open>
  The shared relay status and its tunnels (\<open>RelayStatus\<close>, \<open>RelayTunnel\<close> in \<open>src/src/relay.rs\<close>): state
  setters, the discovered set, the transport of a held session, opening, routing, accepting, closing and
  sending.

  \<open>RelayStatus\<close> is one record; an operation under its mutexes takes the record and returns it updated.
  The three kinds of channel are states of types \<open>'c\<close> (bounded inbound channel of a tunnel), \<open>'d\<close> (bounded
  accept channel) and \<open>'o\<close> (unbounded outbound channel) with the operations of \<open>chan_env\<close>; \<open>None\<close> is a
  full or closed channel.  The inbound channel behind a registration is kept in \<open>rs_chans\<close> under the
  registration's id, so a stale \<open>RelayTunnel\<close> still names its own channel.  \<open>Instant::now()\<close> is the
  argument \<open>now\<close>, in milliseconds.
\<close>

section \<open>State\<close>

datatype tunnel_role = Client | Server

record tunnel_entry =
  te_role :: tunnel_role
  te_id :: u64
  te_last_activity :: nat

record relay_tunnel =
  tu_target :: string
  tu_network_id :: string
  tu_id :: u64

record dht_records_answer =
  dra_records :: "dht_record_entry list"
  dra_total_keys :: nat
  dra_truncated :: bool

record ('c, 'd, 'o) chan_env =
  tunnel_chan :: "nat \<Rightarrow> 'c"
  tunnel_try_send :: "'c \<Rightarrow> bytes \<Rightarrow> 'c option"
  accept_chan :: "nat \<Rightarrow> 'd"
  accept_try_send :: "'d \<Rightarrow> relay_tunnel \<Rightarrow> 'd option"
  out_send :: "'o \<Rightarrow> relay_message \<Rightarrow> 'o option"

record ('c, 'd, 'o) relay_status =
  rs_state :: u8
  rs_reconnect_attempts :: u32
  rs_connected_peers :: u64
  rs_last_error :: "string option"
  rs_known_peers :: discovered_peers
  rs_outbound :: "'o option"
  rs_local_peer_id :: "string option"
  rs_local_network_id :: "string option"
  rs_inbound_accept :: "'d option"
  rs_tunnels :: "(string \<times> tunnel_entry) list"
  rs_relay_seq :: u64
  rs_next_tunnel_id :: u64
  rs_dht_records :: "(nat \<Rightarrow> dht_records_answer) option"
  rs_chans :: "u64 \<Rightarrow> 'c option"

definition relay_status_new :: "('c, 'd, 'o) relay_status" where
  "relay_status_new = \<lparr> rs_state = to_u8 Disconnected, rs_reconnect_attempts = 0, rs_connected_peers = 0,
     rs_last_error = None, rs_known_peers = dp_default, rs_outbound = None, rs_local_peer_id = None,
     rs_local_network_id = None, rs_inbound_accept = None, rs_tunnels = [], rs_relay_seq = 0,
     rs_next_tunnel_id = 0, rs_dht_records = None, rs_chans = Map.empty \<rparr>"

section \<open>Status setters\<close>

definition state :: "('c, 'd, 'o) relay_status \<Rightarrow> relay_state" where
  "state self = from_u8 (rs_state self)"

definition transition_to :: "('c, 'd, 'o) relay_status \<Rightarrow> relay_state \<Rightarrow> bool \<times> ('c, 'd, 'o) relay_status" where
  "transition_to self next = (rs_state self \<noteq> to_u8 next, self\<lparr> rs_state := to_u8 next \<rparr>)"

definition set_disabled :: "('c, 'd, 'o) relay_status \<Rightarrow> ('c, 'd, 'o) relay_status" where
  "set_disabled self = snd (transition_to self Disabled)"

definition set_connecting :: "('c, 'd, 'o) relay_status \<Rightarrow> ('c, 'd, 'o) relay_status" where
  "set_connecting self = snd (transition_to self Connecting)"

definition set_connected :: "('c, 'd, 'o) relay_status \<Rightarrow> u64 \<Rightarrow> ('c, 'd, 'o) relay_status" where
  "set_connected self connected_peers =
    snd (transition_to (self\<lparr> rs_connected_peers := connected_peers, rs_reconnect_attempts := 0, rs_last_error := None \<rparr>) Connected)"

text \<open>\<open>fetch_add\<close> wraps.\<close>

definition set_disconnected :: "('c, 'd, 'o) relay_status \<Rightarrow> string option \<Rightarrow> ('c, 'd, 'o) relay_status" where
  "set_disconnected self error =
    (let self = self\<lparr> rs_reconnect_attempts := rs_reconnect_attempts self + 1 \<rparr>;
         self = (case error of Some e \<Rightarrow> self\<lparr> rs_last_error := Some e \<rparr> | None \<Rightarrow> self)
     in snd (transition_to self Disconnected))"

definition is_connected :: "('c, 'd, 'o) relay_status \<Rightarrow> bool" where
  "is_connected self \<longleftrightarrow> state self = Connected"

definition known_peers :: "('c, 'd, 'o) relay_status \<Rightarrow> relay_peer_info list" where
  "known_peers self = dp_order (rs_known_peers self)"

definition reconnect_attempts :: "('c, 'd, 'o) relay_status \<Rightarrow> u32" where
  "reconnect_attempts self = rs_reconnect_attempts self"

definition known_peer_count :: "('c, 'd, 'o) relay_status \<Rightarrow> nat" where
  "known_peer_count self = length (dp_order (rs_known_peers self))"

definition replace_known_peers :: "('c, 'd, 'o) relay_status \<Rightarrow> relay_peer_info list \<Rightarrow> ('c, 'd, 'o) relay_status" where
  "replace_known_peers self peers = self\<lparr> rs_known_peers := dp_replace (rs_known_peers self) peers \<rparr>"

definition add_known_peer :: "('c, 'd, 'o) relay_status \<Rightarrow> relay_peer_info \<Rightarrow> ('c, 'd, 'o) relay_status" where
  "add_known_peer self peer = self\<lparr> rs_known_peers := dp_insert (rs_known_peers self) peer \<rparr>"

definition remove_known_peer :: "('c, 'd, 'o) relay_status \<Rightarrow> string \<Rightarrow> ('c, 'd, 'o) relay_status" where
  "remove_known_peer self peer_id = self\<lparr> rs_known_peers := dp_remove (rs_known_peers self) peer_id \<rparr>"

definition clear_known_peers :: "('c, 'd, 'o) relay_status \<Rightarrow> ('c, 'd, 'o) relay_status" where
  "clear_known_peers self = self\<lparr> rs_known_peers := dp_clear (rs_known_peers self) \<rparr>"

definition set_transport :: "('c, 'd, 'o) relay_status \<Rightarrow> string \<Rightarrow> string \<Rightarrow> 'o \<Rightarrow> ('c, 'd, 'o) relay_status" where
  "set_transport self peer_id network_id outbound =
    self\<lparr> rs_local_peer_id := Some peer_id, rs_local_network_id := Some network_id, rs_outbound := Some outbound \<rparr>"

definition set_dht_records_provider ::
  "('c, 'd, 'o) relay_status \<Rightarrow> (nat \<Rightarrow> dht_records_answer) \<Rightarrow> ('c, 'd, 'o) relay_status" where
  "set_dht_records_provider self reader = self\<lparr> rs_dht_records := Some reader \<rparr>"

definition dht_records_provider :: "('c, 'd, 'o) relay_status \<Rightarrow> (nat \<Rightarrow> dht_records_answer) option" where
  "dht_records_provider self = rs_dht_records self"

definition enable_accept :: "('c, 'd, 'o) chan_env \<Rightarrow> ('c, 'd, 'o) relay_status \<Rightarrow> ('c, 'd, 'o) relay_status" where
  "enable_accept env self = self\<lparr> rs_inbound_accept := Some (accept_chan env INBOUND_ACCEPT_CAP) \<rparr>"

definition clear_transport :: "('c, 'd, 'o) relay_status \<Rightarrow> ('c, 'd, 'o) relay_status" where
  "clear_transport self = self\<lparr> rs_outbound := None, rs_tunnels := [] \<rparr>"

definition relay_transport_ready :: "('c, 'd, 'o) relay_status \<Rightarrow> bool" where
  "relay_transport_ready self \<longleftrightarrow> is_connected self \<and> rs_outbound self \<noteq> None"

section \<open>Tunnels\<close>

definition insert_entry ::
  "('c, 'd, 'o) chan_env \<Rightarrow> nat \<Rightarrow> ('c, 'd, 'o) relay_status \<Rightarrow> string \<Rightarrow> string \<Rightarrow> tunnel_role \<Rightarrow>
   relay_tunnel \<times> ('c, 'd, 'o) relay_status" where
  "insert_entry env now self target_peer network_id role =
    (let tid = rs_next_tunnel_id self in
     (\<lparr> tu_target = target_peer, tu_network_id = network_id, tu_id = tid \<rparr>,
      self\<lparr> rs_next_tunnel_id := tid + 1,
            rs_chans := (rs_chans self)(tid \<mapsto> tunnel_chan env RELAY_TUNNEL_INBOUND_CAP),
            rs_tunnels := AList.update target_peer \<lparr> te_role = role, te_id = tid, te_last_activity = now \<rparr> (rs_tunnels self) \<rparr>))"

text \<open>\<open>unwrap_or_default\<close> of an optional string.\<close>

definition or_empty :: "string option \<Rightarrow> string" where
  "or_empty s = (case s of None \<Rightarrow> [] | Some x \<Rightarrow> x)"

definition open_tunnel ::
  "('c, 'd, 'o) chan_env \<Rightarrow> nat \<Rightarrow> ('c, 'd, 'o) relay_status \<Rightarrow> string \<Rightarrow> string \<Rightarrow>
   (string, relay_tunnel) result \<times> ('c, 'd, 'o) relay_status" where
  "open_tunnel env now self target_peer network_id =
    (if \<not> relay_transport_ready self
     then (Err (''relay reservation not connected '' @ em_dash @ '' cannot open relayed tunnel''), self)
     else
       let local = or_empty (rs_local_peer_id self) in
       if local \<noteq> [] \<and> local = target_peer then (Err ''refusing relayed self-dial (target == local peer_id)'', self)
       else
         (case map_of (rs_tunnels self) target_peer of
            Some entry \<Rightarrow>
              if now - te_last_activity entry < STALE_CIRCUIT_IDLE
              then (Err (''existing relay circuit to peer '' @ em_dash @ '' not opening a duplicate''), self)
              else (let (t, self) = insert_entry env now self target_peer network_id Client in (Ok t, self))
          | None \<Rightarrow> (let (t, self) = insert_entry env now self target_peer network_id Client in (Ok t, self))))"

definition is_tls_client_hello :: "bytes \<Rightarrow> bool" where
  "is_tls_client_hello payload \<longleftrightarrow> 6 \<le> length payload \<and> payload ! 0 = 0x16 \<and> payload ! 5 = 0x01"

text \<open>\<open>sink.try_send(payload)\<close> on the channel of registration \<open>id\<close>; a frame that does not fit is dropped.\<close>

definition deliver :: "('c, 'd, 'o) chan_env \<Rightarrow> ('c, 'd, 'o) relay_status \<Rightarrow> u64 \<Rightarrow> bytes \<Rightarrow> ('c, 'd, 'o) relay_status" where
  "deliver env self tid payload =
    (case rs_chans self tid of
       None \<Rightarrow> self
     | Some c \<Rightarrow> (case tunnel_try_send env c payload of None \<Rightarrow> self | Some c' \<Rightarrow> self\<lparr> rs_chans := (rs_chans self)(tid \<mapsto> c') \<rparr>))"

definition close_tunnel :: "('c, 'd, 'o) relay_status \<Rightarrow> string \<Rightarrow> u64 \<Rightarrow> ('c, 'd, 'o) relay_status" where
  "close_tunnel self target_peer tid =
    (if map_option te_id (map_of (rs_tunnels self) target_peer) = Some tid
     then self\<lparr> rs_tunnels := AList.delete target_peer (rs_tunnels self) \<rparr> else self)"

definition accept_introduced ::
  "('c, 'd, 'o) chan_env \<Rightarrow> nat \<Rightarrow> ('c, 'd, 'o) relay_status \<Rightarrow> string \<Rightarrow> bytes \<Rightarrow> ('c, 'd, 'o) relay_status" where
  "accept_introduced env now self from payload =
    (if \<not> is_tls_client_hello payload then self
     else
       (case rs_inbound_accept self of
          None \<Rightarrow> self
        | Some accept_tx \<Rightarrow>
            let network_id = or_empty (rs_local_network_id self) in
            if map_of (rs_tunnels self) from \<noteq> None then self
            else if MAX_RELAY_TUNNELS \<le> length (rs_tunnels self) then self
            else
              let (tunnel, self) = insert_entry env now self from network_id Server;
                  self = (case map_of (rs_tunnels self) from of
                      Some e \<Rightarrow> deliver env self (te_id e) payload | None \<Rightarrow> self) in
              (case accept_try_send env accept_tx tunnel of
                 Some accept_tx \<Rightarrow> self\<lparr> rs_inbound_accept := Some accept_tx \<rparr>
               | None \<Rightarrow> close_tunnel self (tu_target tunnel) (tu_id tunnel))))"

text \<open>The decision region of \<open>route_relayed\<close>, one acquisition of the tunnels lock: the proof of life is
  stamped, the action is chosen, and a yielding client registration is removed.\<close>

datatype route = Deliver u64 | Ignore | Accept

definition route_decision ::
  "nat \<Rightarrow> ('c, 'd, 'o) relay_status \<Rightarrow> string \<Rightarrow> string \<Rightarrow> bytes \<Rightarrow> route \<times> ('c, 'd, 'o) relay_status" where
  "route_decision now self local from payload =
    (let self = (case map_of (rs_tunnels self) from of
         Some entry \<Rightarrow> self\<lparr> rs_tunnels := AList.update from (entry\<lparr> te_last_activity := now \<rparr>) (rs_tunnels self) \<rparr>
       | None \<Rightarrow> self) in
     (case map_of (rs_tunnels self) from of
        Some entry \<Rightarrow>
          (case te_role entry of
             Server \<Rightarrow> (Deliver (te_id entry), self)
           | Client \<Rightarrow>
               if \<not> is_tls_client_hello payload then (Deliver (te_id entry), self)
               else if from < local then (Ignore, self)
               else if rs_inbound_accept self = None then (Ignore, self)
               else (Accept, close_tunnel self from (te_id entry)))
      | None \<Rightarrow> (Accept, self)))"

definition route_relayed ::
  "('c, 'd, 'o) chan_env \<Rightarrow> nat \<Rightarrow> ('c, 'd, 'o) relay_status \<Rightarrow> string \<Rightarrow> bytes \<Rightarrow> ('c, 'd, 'o) relay_status" where
  "route_relayed env now self from payload =
    (if MAX_RELAY_PAYLOAD < length payload then self
     else
       let local = or_empty (rs_local_peer_id self) in
       if local \<noteq> [] \<and> local = from then self
       else
         (case route_decision now self local from payload of
            (Deliver sink, self) \<Rightarrow> deliver env self sink payload
          | (Ignore, self) \<Rightarrow> self
          | (Accept, self) \<Rightarrow> accept_introduced env now self from payload))"

text \<open>\<open>RelayTunnel::send\<close>; the sequence number is taken before the sink is looked at.\<close>

definition tunnel_send ::
  "('c, 'd, 'o) chan_env \<Rightarrow> ('c, 'd, 'o) relay_status \<Rightarrow> relay_tunnel \<Rightarrow> bytes \<Rightarrow> (string, unit) result \<times> ('c, 'd, 'o) relay_status" where
  "tunnel_send env status self payload =
    (if MAX_RELAY_PAYLOAD < length payload
     then (Err (''relayed payload '' @ show_nat (length payload) @ '' exceeds cap '' @ show_nat MAX_RELAY_PAYLOAD), status)
     else
       (case rs_local_peer_id status of
          None \<Rightarrow> (Err (''relay reservation not connected '' @ em_dash @ '' no local peer_id''), status)
        | Some from \<Rightarrow>
            let seq = rs_relay_seq status;
                status = status\<lparr> rs_relay_seq := seq + 1 \<rparr>;
                frame = RelayGossipMessage from (tu_target self) payload seq in
            (case rs_outbound status of
               None \<Rightarrow> (Err (''relay reservation not connected '' @ em_dash @ '' cannot send relayed frame''), status)
             | Some sink \<Rightarrow>
                 (case out_send env sink frame of
                    Some sink \<Rightarrow> (Ok (), status\<lparr> rs_outbound := Some sink \<rparr>)
                  | None \<Rightarrow> (Err ''relay reservation write half closed'', status)))))"

definition drop_tunnel :: "('c, 'd, 'o) relay_status \<Rightarrow> relay_tunnel \<Rightarrow> ('c, 'd, 'o) relay_status" where
  "drop_tunnel status self = close_tunnel status (tu_target self) (tu_id self)"

section \<open>Interface: keyed registrations with identities\<close>

text \<open>A registry holds at most one registration per key; a new registration gets an identity no held one
  has, and releasing is matched on the identity.\<close>

locale registry =
  fixes holder :: "'s \<Rightarrow> 'k \<Rightarrow> 'i option"
    and register :: "'s \<Rightarrow> 'k \<Rightarrow> 'i \<times> 's"
    and release :: "'s \<Rightarrow> 'k \<Rightarrow> 'i \<Rightarrow> 's"
    and good :: "'s \<Rightarrow> bool"
    and room :: "'s \<Rightarrow> bool"
  assumes holder_register: "register s k = (i, t) \<Longrightarrow> holder t = (holder s)(k \<mapsto> i)"
    and register_fresh: "good s \<Longrightarrow> register s k = (i, t) \<Longrightarrow> holder s j \<noteq> Some i"
    and register_good: "good s \<Longrightarrow> room s \<Longrightarrow> register s k = (i, t) \<Longrightarrow> good t"
    and holder_release: "holder (release s k i) = (if holder s k = Some i then (holder s)(k := None) else holder s)"
begin

text \<open>Releasing a registration that was replaced changes nothing.\<close>

lemma stale_release:
  assumes "good s" "holder s k = Some i" "register s k = (j, t)"
  shows "i \<noteq> j" "holder (release t k i) = holder t"
proof -
  show "i \<noteq> j" using register_fresh [OF assms(1,3), of k] assms(2) by auto
  then show "holder (release t k i) = holder t"
    by (simp add: holder_release holder_register [OF assms(3)])
qed

lemma own_release: "register s k = (i, t) \<Longrightarrow> holder (release t k i) = (holder s)(k := None)"
  by (simp add: holder_release holder_register)

end

section \<open>The tunnel table is a registry\<close>

definition circuits_ok :: "('c, 'd, 'o) relay_status \<Rightarrow> bool" where
  "circuits_ok s \<longleftrightarrow> distinct (map fst (rs_tunnels s)) \<and> (\<forall>(k, e) \<in> set (rs_tunnels s). te_id e < rs_next_tunnel_id s)"

text \<open>One more registration does not wrap the 64-bit id counter.\<close>

definition id_room :: "('c, 'd, 'o) relay_status \<Rightarrow> bool" where
  "id_room s \<longleftrightarrow> rs_next_tunnel_id s \<noteq> - 1"

definition circuit :: "('c, 'd, 'o) relay_status \<Rightarrow> string \<Rightarrow> tunnel_entry option" where
  "circuit s k = map_of (rs_tunnels s) k"

definition circuit_holder :: "('c, 'd, 'o) relay_status \<Rightarrow> string \<Rightarrow> u64 option" where
  "circuit_holder s k = map_option te_id (circuit s k)"

definition circuit_role :: "('c, 'd, 'o) relay_status \<Rightarrow> string \<Rightarrow> tunnel_role option" where
  "circuit_role s k = map_option te_role (circuit s k)"

definition register_circuit ::
  "('c, 'd, 'o) chan_env \<Rightarrow> nat \<Rightarrow> string \<Rightarrow> tunnel_role \<Rightarrow> ('c, 'd, 'o) relay_status \<Rightarrow> string \<Rightarrow> u64 \<times> ('c, 'd, 'o) relay_status" where
  "register_circuit env now network role s k = (let (t, s') = insert_entry env now s k network role in (tu_id t, s'))"

lemma insert_entry_simps:
  assumes "insert_entry env now s k network role = (t, s')"
  shows "tu_target t = k" "tu_id t = rs_next_tunnel_id s" "rs_next_tunnel_id s' = rs_next_tunnel_id s + 1"
    "rs_tunnels s' = AList.update k \<lparr> te_role = role, te_id = rs_next_tunnel_id s, te_last_activity = now \<rparr> (rs_tunnels s)"
    "rs_known_peers s' = rs_known_peers s" "rs_inbound_accept s' = rs_inbound_accept s" "rs_outbound s' = rs_outbound s"
    "rs_local_peer_id s' = rs_local_peer_id s" "rs_state s' = rs_state s" "rs_relay_seq s' = rs_relay_seq s"
  using assms by (auto simp: insert_entry_def Let_def)

lemma insert_entry_tunnel:
  assumes "insert_entry env now s k network role = (t, s')"
  shows "t = \<lparr> tu_target = k, tu_network_id = network, tu_id = rs_next_tunnel_id s \<rparr>"
proof -
  have "fst (insert_entry env now s k network role) = \<lparr> tu_target = k, tu_network_id = network, tu_id = rs_next_tunnel_id s \<rparr>"
    by (simp add: insert_entry_def Let_def)
  then show ?thesis by (simp add: assms)
qed

lemma circuit_insert_entry:
  "insert_entry env now s k network role = (t, s') \<Longrightarrow>
   circuit s' = (circuit s)(k \<mapsto> \<lparr> te_role = role, te_id = rs_next_tunnel_id s, te_last_activity = now \<rparr>)"
  by (rule ext) (simp add: circuit_def update_conv' insert_entry_simps)

lemma word_less_inc: "w < w + 1" if "w \<noteq> - 1" for w :: u64
proof -
  have "unat w \<noteq> unat (- 1 :: u64)" using that by (simp only: word_unat_eq_iff not_False_eq_True)
  moreover have "unat (- 1 :: u64) = 2 ^ 64 - 1" by (simp add: unsigned_minus_1_eq_mask mask_eq_exp_minus_1)
  moreover have "unat w < 2 ^ 64" using unsigned_less [of w] by simp
  ultimately have "unat w + 1 < 2 ^ 64" by linarith
  then have "unat (w + 1) = unat w + 1" by (simp add: unat_word_ariths)
  then show ?thesis by (simp add: word_less_nat_alt)
qed

lemma set_AList_update: "set (AList.update k v xs) \<subseteq> insert (k, v) (set xs)"
  by (induction xs) auto

lemma circuits_ok_insert:
  assumes "circuits_ok s" "id_room s" "insert_entry env now s k network role = (t, s')"
  shows "circuits_ok s'"
proof -
  have "rs_next_tunnel_id s < rs_next_tunnel_id s + 1" using assms(2) by (simp add: id_room_def word_less_inc)
  moreover from this have "x < rs_next_tunnel_id s + 1" if "x < rs_next_tunnel_id s" for x
    using that by (rule less_trans [rotated])
  ultimately show ?thesis
    using assms(1) set_AList_update [of k _ "rs_tunnels s"] assms(3)
    by (fastforce simp: circuits_ok_def distinct_update insert_entry_simps [OF assms(3)])
qed

lemma register_circuit_insert:
  "register_circuit env now network role s k = (i, s') \<Longrightarrow> \<exists>t. insert_entry env now s k network role = (t, s') \<and> i = tu_id t"
  by (auto simp: register_circuit_def split: prod.splits)

lemma circuit_holder_fresh:
  assumes "circuits_ok s" "circuit_holder s j = Some i"
  shows "i < rs_next_tunnel_id s"
proof -
  obtain e where "map_of (rs_tunnels s) j = Some e" "te_id e = i"
    using assms(2) by (auto simp: circuit_holder_def circuit_def)
  then show ?thesis using assms(1) by (auto simp: circuits_ok_def dest!: map_of_SomeD)
qed

interpretation circuits: registry circuit_holder "register_circuit env now network role" close_tunnel circuits_ok id_room
proof (unfold_locales, goal_cases)
  case (1 s k i t)
  then show ?case by (auto simp: circuit_holder_def circuit_insert_entry insert_entry_simps fun_eq_iff dest!: register_circuit_insert)
next
  case (2 s k i t j)
  then show ?case using circuit_holder_fresh [OF 2(1), of j i] by (auto simp: insert_entry_simps dest!: register_circuit_insert)
next
  case (3 s k i t)
  then show ?case by (blast dest: register_circuit_insert circuits_ok_insert)
next
  case (4 s k i)
  show ?case by (auto simp: close_tunnel_def circuit_holder_def circuit_def delete_conv' fun_eq_iff)
qed


section \<open>Effect of each operation on the circuits\<close>

named_theorems circuit_simps \<open>what an operation does to the circuits\<close>

lemma circuit_delete [circuit_simps]:
  "circuit (s\<lparr> rs_tunnels := AList.delete k (rs_tunnels s) \<rparr>) = (circuit s)(k := None)"
  by (rule ext) (simp add: circuit_def delete_conv')

lemma circuit_update [circuit_simps]:
  "circuit (s\<lparr> rs_tunnels := AList.update k e (rs_tunnels s) \<rparr>) = (circuit s)(k \<mapsto> e)"
  by (rule ext) (simp add: circuit_def update_conv')

lemma close_tunnel_alt:
  "close_tunnel s k i = (if circuit_holder s k = Some i then s\<lparr> rs_tunnels := AList.delete k (rs_tunnels s) \<rparr> else s)"
  by (simp only: close_tunnel_def circuit_holder_def circuit_def)

lemma circuit_close_tunnel [circuit_simps]:
  "circuit (close_tunnel s k i) = (if circuit_holder s k = Some i then (circuit s)(k := None) else circuit s)"
  by (simp add: close_tunnel_alt circuit_delete)

text \<open>A delivery or the closing of a circuit leaves everything else of the status alone.\<close>

lemma deliver_same [simp]:
  "rs_tunnels (deliver env s i p) = rs_tunnels s" "rs_next_tunnel_id (deliver env s i p) = rs_next_tunnel_id s"
  "rs_known_peers (deliver env s i p) = rs_known_peers s" "rs_inbound_accept (deliver env s i p) = rs_inbound_accept s"
  "rs_outbound (deliver env s i p) = rs_outbound s" "rs_local_peer_id (deliver env s i p) = rs_local_peer_id s"
  "rs_state (deliver env s i p) = rs_state s" "rs_relay_seq (deliver env s i p) = rs_relay_seq s"
  by (simp_all add: deliver_def split: option.splits)

lemma circuit_deliver [circuit_simps]: "circuit (deliver env s i p) = circuit s"
  by (rule ext) (simp add: circuit_def)

lemma close_tunnel_same [simp]:
  "rs_next_tunnel_id (close_tunnel s k i) = rs_next_tunnel_id s" "rs_known_peers (close_tunnel s k i) = rs_known_peers s"
  "rs_inbound_accept (close_tunnel s k i) = rs_inbound_accept s" "rs_outbound (close_tunnel s k i) = rs_outbound s"
  "rs_local_peer_id (close_tunnel s k i) = rs_local_peer_id s" "rs_state (close_tunnel s k i) = rs_state s"
  "rs_relay_seq (close_tunnel s k i) = rs_relay_seq s" "rs_chans (close_tunnel s k i) = rs_chans s"
  by (simp_all add: close_tunnel_def)

lemma circuit_inbound [circuit_simps]: "circuit (s\<lparr> rs_inbound_accept := a \<rparr>) = circuit s"
  by (rule ext) (simp add: circuit_def)

text \<open>\<open>accept_introduced\<close> either leaves the circuits alone or registers the sender as one more server
  circuit; the latter exactly when the frame is an opening handshake, the responder path is on, the sender
  has no circuit, the cap is not reached and the accept channel takes the tunnel.\<close>

definition server_entry :: "nat \<Rightarrow> ('c, 'd, 'o) relay_status \<Rightarrow> tunnel_entry" where
  "server_entry now s = \<lparr> te_role = Server, te_id = rs_next_tunnel_id s, te_last_activity = now \<rparr>"

definition introduces ::
  "('c, 'd, 'o) chan_env \<Rightarrow> ('c, 'd, 'o) relay_status \<Rightarrow> string \<Rightarrow> bytes \<Rightarrow> bool" where
  "introduces env s from payload \<longleftrightarrow>
    is_tls_client_hello payload \<and> circuit s from = None \<and> length (rs_tunnels s) < MAX_RELAY_TUNNELS \<and>
    (\<exists>tx. rs_inbound_accept s = Some tx \<and> accept_try_send env tx
       \<lparr> tu_target = from, tu_network_id = or_empty (rs_local_network_id s), tu_id = rs_next_tunnel_id s \<rparr> \<noteq> None)"

text \<open>The two shapes of an \<open>accept_introduced\<close>: nothing happens, or a registration is made, gets the opening
  frame, and is kept or closed as the accept channel takes it or not.\<close>

lemma accept_introduced_cases:
  obtains (ignored) "accept_introduced env now s from payload = s" "\<not> introduces env s from payload"
  | (registered) t s' tx d where
      "is_tls_client_hello payload" "rs_inbound_accept s = Some tx" "circuit s from = None"
      "length (rs_tunnels s) < MAX_RELAY_TUNNELS"
      "insert_entry env now s from (or_empty (rs_local_network_id s)) Server = (t, s')"
      "t = \<lparr> tu_target = from, tu_network_id = or_empty (rs_local_network_id s), tu_id = rs_next_tunnel_id s \<rparr>"
      "d = deliver env s' (rs_next_tunnel_id s) payload" "circuit d = (circuit s)(from \<mapsto> server_entry now s)"
      "accept_introduced env now s from payload =
        (case accept_try_send env tx t of Some tx \<Rightarrow> d\<lparr> rs_inbound_accept := Some tx \<rparr> | None \<Rightarrow> close_tunnel d from (rs_next_tunnel_id s))"
proof (cases "is_tls_client_hello payload \<and> rs_inbound_accept s \<noteq> None \<and> circuit s from = None \<and> length (rs_tunnels s) < MAX_RELAY_TUNNELS")
  case False
  then consider "\<not> is_tls_client_hello payload" | "is_tls_client_hello payload" "rs_inbound_accept s = None"
    | tx where "is_tls_client_hello payload" "rs_inbound_accept s = Some tx" "map_of (rs_tunnels s) from \<noteq> None"
    | tx where "is_tls_client_hello payload" "rs_inbound_accept s = Some tx" "map_of (rs_tunnels s) from = None"
        "MAX_RELAY_TUNNELS \<le> length (rs_tunnels s)"
    by (cases "rs_inbound_accept s"; cases "map_of (rs_tunnels s) from"; simp add: circuit_def not_less; blast)
  then have "accept_introduced env now s from payload = s \<and> \<not> introduces env s from payload"
    by cases (simp_all add: accept_introduced_def introduces_def circuit_def [of s "from"])
  then show ?thesis by (blast intro: ignored)
next
  case True
  then obtain tx where tx: "rs_inbound_accept s = Some tx" by auto
  obtain t s' where ins: "insert_entry env now s from (or_empty (rs_local_network_id s)) Server = (t, s')"
    by (rule prod.exhaust)
  have t: "t = \<lparr> tu_target = from, tu_network_id = or_empty (rs_local_network_id s), tu_id = rs_next_tunnel_id s \<rparr>"
    by (rule insert_entry_tunnel [OF ins])
  have c: "circuit s' = (circuit s)(from \<mapsto> server_entry now s)"
    by (simp add: circuit_insert_entry [OF ins] server_entry_def)
  then have m: "map_of (rs_tunnels s') from = Some (server_entry now s)"
    by (simp add: circuit_def [of s', symmetric])
  have free: "map_of (rs_tunnels s) from = None" using True by (simp add: circuit_def)
  have e: "te_id (server_entry now s) = rs_next_tunnel_id s" by (simp add: server_entry_def)
  show ?thesis
  proof (rule registered [OF _ tx _ _ ins t refl])
    show "circuit (deliver env s' (rs_next_tunnel_id s) payload) = (circuit s)(from \<mapsto> server_entry now s)"
      by (simp add: circuit_simps c)
    show "accept_introduced env now s from payload =
        (case accept_try_send env tx t of Some tx \<Rightarrow> deliver env s' (rs_next_tunnel_id s) payload\<lparr> rs_inbound_accept := Some tx \<rparr>
         | None \<Rightarrow> close_tunnel (deliver env s' (rs_next_tunnel_id s) payload) from (rs_next_tunnel_id s))"
      using True free
      by (cases "accept_try_send env tx t") (simp_all add: accept_introduced_def tx Let_def ins insert_entry_simps(1,2) [OF ins] m e)
  qed (use True in simp_all)
qed

lemma circuit_accept_introduced [circuit_simps]:
  "circuit (accept_introduced env now s from payload) =
    (if introduces env s from payload then (circuit s)(from \<mapsto> server_entry now s) else circuit s)"
proof (cases rule: accept_introduced_cases [of env now s "from" payload])
  case ignored
  then show ?thesis by simp
next
  case (registered t s' tx d)
  have "circuit_holder d from = Some (rs_next_tunnel_id s)"
    by (simp add: circuit_holder_def registered(8) server_entry_def)
  moreover have "(circuit s)(from := None) = circuit s" using registered(3) by auto
  ultimately show ?thesis
    using registered(1-4,6) unfolding registered(9)
    by (auto simp: introduces_def circuit_simps registered(8) split: option.splits)
qed

text \<open>The circuit after the stamp of an inbound frame, and the four outcomes of the decision.\<close>

definition stamp :: "nat \<Rightarrow> ('c, 'd, 'o) relay_status \<Rightarrow> string \<Rightarrow> tunnel_entry \<Rightarrow> ('c, 'd, 'o) relay_status" where
  "stamp now s k e = s\<lparr> rs_tunnels := AList.update k (e\<lparr> te_last_activity := now \<rparr>) (rs_tunnels s) \<rparr>"

lemma circuit_stamp [circuit_simps]: "circuit (stamp now s k e) = (circuit s)(k \<mapsto> e\<lparr> te_last_activity := now \<rparr>)"
  by (simp add: stamp_def circuit_update)

lemma stamp_same [simp]:
  "rs_next_tunnel_id (stamp now s k e) = rs_next_tunnel_id s" "rs_known_peers (stamp now s k e) = rs_known_peers s"
  "rs_inbound_accept (stamp now s k e) = rs_inbound_accept s" "rs_outbound (stamp now s k e) = rs_outbound s"
  "rs_local_peer_id (stamp now s k e) = rs_local_peer_id s" "rs_state (stamp now s k e) = rs_state s"
  "rs_local_network_id (stamp now s k e) = rs_local_network_id s"
  by (simp_all add: stamp_def)

lemma route_decision_cases:
  obtains (new) "circuit s from = None" "route_decision now s local from p = (Accept, s)"
  | (through) e where "circuit s from = Some e" "te_role e = Server \<or> \<not> is_tls_client_hello p"
      "route_decision now s local from p = (Deliver (te_id e), stamp now s from e)"
  | (retain) e where "circuit s from = Some e" "te_role e = Client" "is_tls_client_hello p"
      "from < local \<or> rs_inbound_accept s = None" "route_decision now s local from p = (Ignore, stamp now s from e)"
  | (yield) e where "circuit s from = Some e" "te_role e = Client" "is_tls_client_hello p"
      "\<not> from < local" "rs_inbound_accept s \<noteq> None"
      "route_decision now s local from p = (Accept, close_tunnel (stamp now s from e) from (te_id e))"
proof (cases "circuit s from")
  case None
  then show ?thesis by (intro new) (simp_all add: route_decision_def circuit_def)
next
  case (Some e)
  have "route_decision now s local from p =
     (case te_role e of Server \<Rightarrow> (Deliver (te_id e), stamp now s from e)
      | Client \<Rightarrow> if \<not> is_tls_client_hello p then (Deliver (te_id e), stamp now s from e)
          else if from < local \<or> rs_inbound_accept s = None then (Ignore, stamp now s from e)
          else (Accept, close_tunnel (stamp now s from e) from (te_id e)))"
    using Some by (simp add: route_decision_def circuit_def stamp_def update_conv' Let_def split: tunnel_role.split)
  with Some show ?thesis
    by (cases "te_role e") (force intro: through retain yield split: if_splits)+
qed

section \<open>The status invariant\<close>

definition served :: "('c, 'd, 'o) relay_status \<Rightarrow> string set" where
  "served s = {k. circuit_role s k = Some Server}"

definition status_ok :: "('c, 'd, 'o) relay_status \<Rightarrow> bool" where
  "status_ok s \<longleftrightarrow> dp_ok (rs_known_peers s) \<and> circuits_ok s \<and> card (served s) \<le> MAX_RELAY_TUNNELS"

lemma circuits_ok_length: "circuits_ok s \<Longrightarrow> length (rs_tunnels s) = card (dom (circuit s))"
proof -
  assume "circuits_ok s"
  then have "length (map fst (rs_tunnels s)) = card (set (map fst (rs_tunnels s)))"
    by (simp only: circuits_ok_def distinct_card)
  moreover have "dom (circuit s) = set (map fst (rs_tunnels s))"
    by (simp add: circuit_def [abs_def] dom_map_of_conv_image_fst)
  ultimately show ?thesis by simp
qed

lemma finite_dom_circuit: "finite (dom (circuit s))"
  by (simp add: circuit_def [abs_def] finite_dom_map_of)

lemma served_dom: "served s \<subseteq> dom (circuit s)"
  by (auto simp: served_def circuit_role_def)

lemma finite_served [simp]: "finite (served s)"
  using served_dom finite_dom_circuit by (rule finite_subset)

lemma served_circuit: "served s = {k. \<exists>e. circuit s k = Some e \<and> te_role e = Server}"
  by (auto simp: served_def circuit_role_def)

lemma set_AList_delete: "set (AList.delete k xs) \<subseteq> set xs"
  by (auto simp: AList.delete_eq)

lemma circuits_ok_delete: "circuits_ok s \<Longrightarrow> circuits_ok (close_tunnel s k i)"
  using set_AList_delete [of k "rs_tunnels s"]
  by (auto simp: circuits_ok_def close_tunnel_alt distinct_delete)

lemma circuits_ok_stamp:
  assumes "circuits_ok s" "circuit s k = Some e"
  shows "circuits_ok (stamp now s k e)"
proof -
  have "(k, e) \<in> set (rs_tunnels s)" using assms(2) by (simp add: circuit_def map_of_SomeD)
  then show ?thesis
    using assms(1) set_AList_update [of k "e\<lparr> te_last_activity := now \<rparr>" "rs_tunnels s"]
    by (fastforce simp: circuits_ok_def stamp_def distinct_update)
qed

lemma circuits_ok_deliver [simp]: "circuits_ok (deliver env s i p) = circuits_ok s"
  by (simp add: circuits_ok_def)

lemma circuits_ok_accept:
  assumes "circuits_ok s" "id_room s"
  shows "circuits_ok (accept_introduced env now s from payload)"
proof (cases rule: accept_introduced_cases [of env now s "from" payload])
  case ignored
  with assms show ?thesis by simp
next
  case (registered t s' tx d)
  have "circuits_ok d" using circuits_ok_insert [OF assms registered(5)] by (simp add: registered(7))
  then show ?thesis
    unfolding registered(9)
    by (cases "accept_try_send env tx t"; simp add: circuits_ok_delete) (simp add: circuits_ok_def)
qed

lemma served_accept:
  assumes "circuits_ok s" "card (served s) \<le> MAX_RELAY_TUNNELS"
  shows "card (served (accept_introduced env now s from payload)) \<le> MAX_RELAY_TUNNELS"
proof (cases "introduces env s from payload")
  case False
  then have "circuit (accept_introduced env now s from payload) = circuit s" by (simp add: circuit_simps)
  with assms(2) show ?thesis by (simp add: served_circuit)
next
  case True
  then have "served (accept_introduced env now s from payload) \<subseteq> insert from (served s)"
    by (auto simp: served_circuit circuit_simps split: if_splits)
  then have "card (served (accept_introduced env now s from payload)) \<le> card (insert from (served s))"
    by (intro card_mono) simp_all
  also have "\<dots> \<le> Suc (card (served s))" by (simp add: card_insert_if)
  also have "card (served s) \<le> card (dom (circuit s))" by (intro card_mono finite_dom_circuit served_dom)
  finally show ?thesis using True circuits_ok_length [OF assms(1)] by (simp add: introduces_def)
qed

text \<open>\<open>route_relayed\<close> as one case distinction over the circuit of the sender.\<close>

definition admitted :: "('c, 'd, 'o) relay_status \<Rightarrow> string \<Rightarrow> bytes \<Rightarrow> bool" where
  "admitted s from payload \<longleftrightarrow> length payload \<le> MAX_RELAY_PAYLOAD
     \<and> \<not> (or_empty (rs_local_peer_id s) \<noteq> [] \<and> or_empty (rs_local_peer_id s) = from)"

lemma route_relayed_cases:
  obtains (dropped) "\<not> admitted s from p" "route_relayed env now s from p = s"
  | (new) "admitted s from p" "circuit s from = None" "route_relayed env now s from p = accept_introduced env now s from p"
  | (through) e where "admitted s from p" "circuit s from = Some e" "te_role e = Server \<or> \<not> is_tls_client_hello p"
      "route_relayed env now s from p = deliver env (stamp now s from e) (te_id e) p"
  | (retain) e where "admitted s from p" "circuit s from = Some e" "te_role e = Client" "is_tls_client_hello p"
      "from < or_empty (rs_local_peer_id s) \<or> rs_inbound_accept s = None" "route_relayed env now s from p = stamp now s from e"
  | (yield) e where "admitted s from p" "circuit s from = Some e" "te_role e = Client" "is_tls_client_hello p"
      "\<not> from < or_empty (rs_local_peer_id s)" "rs_inbound_accept s \<noteq> None"
      "route_relayed env now s from p = accept_introduced env now (close_tunnel (stamp now s from e) from (te_id e)) from p"
proof (cases "admitted s from p")
  case False
  then show ?thesis by (intro dropped) (auto simp: route_relayed_def admitted_def Let_def)
next
  case True
  then have *: "route_relayed env now s from p =
      (case route_decision now s (or_empty (rs_local_peer_id s)) from p of
         (Deliver sink, self) \<Rightarrow> deliver env self sink p | (Ignore, self) \<Rightarrow> self
       | (Accept, self) \<Rightarrow> accept_introduced env now self from p)"
    by (auto simp: route_relayed_def admitted_def Let_def)
  show ?thesis
    by (cases rule: route_decision_cases [of s "from" now "or_empty (rs_local_peer_id s)" p])
      (use True * in \<open>auto intro: new through retain yield\<close>)
qed

text \<open>Every operation of the status, as a step.\<close>

inductive status_step :: "('c, 'd, 'o) chan_env \<Rightarrow> ('c, 'd, 'o) relay_status \<Rightarrow> ('c, 'd, 'o) relay_status \<Rightarrow> bool"
  for env where
  disabled: "status_step env s (set_disabled s)"
| connecting: "status_step env s (set_connecting s)"
| connected: "status_step env s (set_connected s n)"
| disconnected: "status_step env s (set_disconnected s err)"
| replace_peers: "status_step env s (replace_known_peers s peers)"
| add_peer: "status_step env s (add_known_peer s peer)"
| remove_peer: "status_step env s (remove_known_peer s k)"
| clear_peers: "status_step env s (clear_known_peers s)"
| transport: "status_step env s (set_transport s k network sink)"
| dht_provider: "status_step env s (set_dht_records_provider s reader)"
| accepting: "status_step env s (enable_accept env s)"
| transport_cleared: "status_step env s (clear_transport s)"
| opened: "id_room s \<Longrightarrow> open_tunnel env now s k network = (r, t) \<Longrightarrow> status_step env s t"
| routed: "id_room s \<Longrightarrow> status_step env s (route_relayed env now s k payload)"
| sent: "tunnel_send env s tu payload = (r', t) \<Longrightarrow> status_step env s t"
| dropped: "status_step env s (drop_tunnel s tu)"

inductive_cases status_stepE: "status_step env s t"

lemmas setter_defs = transition_to_def set_disabled_def set_connecting_def set_connected_def set_disconnected_def
  replace_known_peers_def add_known_peer_def remove_known_peer_def clear_known_peers_def set_transport_def
  set_dht_records_provider_def enable_accept_def

lemma circuit_cong: "rs_tunnels t = rs_tunnels s \<Longrightarrow> circuit t = circuit s"
  by (rule ext) (simp add: circuit_def)

lemma status_ok_cong:
  assumes "status_ok s" "rs_tunnels t = rs_tunnels s" "rs_next_tunnel_id t = rs_next_tunnel_id s" "dp_ok (rs_known_peers t)"
  shows "status_ok t"
  using assms by (simp add: status_ok_def circuits_ok_def served_circuit circuit_cong [OF assms(2)])

lemma open_tunnel_cases:
  obtains (refused) m where "open_tunnel env now s k network = (Err m, s)"
    "\<not> relay_transport_ready s \<or> or_empty (rs_local_peer_id s) \<noteq> [] \<and> or_empty (rs_local_peer_id s) = k
      \<or> (\<exists>e. circuit s k = Some e \<and> now - te_last_activity e < STALE_CIRCUIT_IDLE)"
  | (opened) t s' where "open_tunnel env now s k network = (Ok t, s')" "insert_entry env now s k network Client = (t, s')"
    "relay_transport_ready s" "\<not> (or_empty (rs_local_peer_id s) \<noteq> [] \<and> or_empty (rs_local_peer_id s) = k)"
    "\<And>e. circuit s k = Some e \<Longrightarrow> STALE_CIRCUIT_IDLE \<le> now - te_last_activity e"
proof -
  let ?bad = "\<not> relay_transport_ready s \<or> or_empty (rs_local_peer_id s) \<noteq> [] \<and> or_empty (rs_local_peer_id s) = k
      \<or> (\<exists>e. circuit s k = Some e \<and> now - te_last_activity e < STALE_CIRCUIT_IDLE)"
  show ?thesis
  proof (cases ?bad)
    case True
    then have "\<exists>m. open_tunnel env now s k network = (Err m, s)"
      by (auto simp: open_tunnel_def Let_def circuit_def split: option.split)
    with True show ?thesis using refused by blast
  next
    case False
    obtain t s' where ins: "insert_entry env now s k network Client = (t, s')" by (rule prod.exhaust)
    then have "open_tunnel env now s k network = (Ok t, s')"
      using False by (auto simp: open_tunnel_def Let_def circuit_def split: option.split)
    with False ins show ?thesis by (intro opened) (auto simp: not_less)
  qed
qed

lemma served_insert:
  assumes "insert_entry env now s k network role = (t, s')"
  shows "served s' \<subseteq> (if role = Server then insert k (served s) else served s)"
  by (auto simp: served_circuit circuit_insert_entry [OF assms] split: if_splits)

lemma status_ok_insert_client:
  assumes "status_ok s" "id_room s" "insert_entry env now s k network Client = (t, s')"
  shows "status_ok s'"
proof -
  have "card (served s') \<le> card (served s)" using served_insert [OF assms(3)] by (intro card_mono) simp_all
  then show ?thesis
    using assms(1) circuits_ok_insert [OF _ assms(2,3)] by (simp add: status_ok_def insert_entry_simps [OF assms(3)])
qed

lemma status_ok_insert_server:
  assumes "status_ok s" "id_room s" "insert_entry env now s k network Server = (t, s')" "length (rs_tunnels s) < MAX_RELAY_TUNNELS"
  shows "status_ok s'"
proof -
  have "card (served s') \<le> card (insert k (served s))" using served_insert [OF assms(3)] by (intro card_mono) simp_all
  also have "\<dots> \<le> Suc (card (served s))" by (simp add: card_insert_if)
  also have "card (served s) \<le> length (rs_tunnels s)"
    using assms(1) card_mono [OF finite_dom_circuit served_dom, of s] by (simp add: status_ok_def circuits_ok_length)
  finally show ?thesis
    using assms(1,4) circuits_ok_insert [OF _ assms(2,3)] by (simp add: status_ok_def insert_entry_simps [OF assms(3)])
qed

lemma status_ok_open:
  assumes "status_ok s" "id_room s" "open_tunnel env now s k network = (r, t)"
  shows "status_ok t"
proof (cases rule: open_tunnel_cases [of env now s k network])
  case (refused m)
  with assms show ?thesis by simp
next
  case (opened u s')
  with assms(3) status_ok_insert_client [OF assms(1,2) opened(2)] show ?thesis by simp
qed

lemma served_stamp: "circuit s k = Some e \<Longrightarrow> served (stamp now s k e) = served s"
  by (auto simp: served_circuit circuit_simps)

lemma accept_introduced_peers [simp]: "rs_known_peers (accept_introduced env now s from p) = rs_known_peers s"
proof (cases rule: accept_introduced_cases [of env now s "from" p])
  case (registered t s' tx d)
  then have "rs_known_peers d = rs_known_peers s" by (simp add: insert_entry_simps [OF registered(5)])
  then show ?thesis unfolding registered(9) by (cases "accept_try_send env tx t") simp_all
qed simp

lemma status_ok_accept:
  assumes "status_ok s" "id_room s"
  shows "status_ok (accept_introduced env now s from p)"
  using assms circuits_ok_accept [of s env now "from" p] served_accept [of s env now "from" p]
  by (simp add: status_ok_def)

lemma id_room_cong: "rs_next_tunnel_id t = rs_next_tunnel_id s \<Longrightarrow> id_room t = id_room s"
  by (simp add: id_room_def)

lemma status_ok_stamp: "status_ok s \<Longrightarrow> circuit s k = Some e \<Longrightarrow> status_ok (stamp now s k e)"
  by (simp add: status_ok_def served_stamp circuits_ok_stamp)

lemma served_close: "served (close_tunnel s k i) \<subseteq> served s"
  by (auto simp: served_circuit circuit_simps split: if_splits)

lemma status_ok_close: "status_ok s \<Longrightarrow> status_ok (close_tunnel s k i)"
  using card_mono [OF finite_served served_close, of s k i] by (simp add: status_ok_def circuits_ok_delete)

lemma status_ok_deliver [simp]: "status_ok (deliver env s i p) = status_ok s"
  by (simp add: status_ok_def served_circuit circuit_simps)

lemma status_ok_route:
  assumes "status_ok s" "id_room s"
  shows "status_ok (route_relayed env now s from p)"
proof (cases rule: route_relayed_cases [of s "from" p env now])
  case (yield e)
  have "id_room (close_tunnel (stamp now s from e) from (te_id e))" using assms(2) by (simp add: id_room_def)
  with assms yield(2) show ?thesis unfolding yield(7) by (intro status_ok_accept status_ok_close status_ok_stamp)
qed (use assms in \<open>auto intro: status_ok_accept status_ok_stamp\<close>)

lemma tunnel_send_same:
  "tunnel_send env s tu p = (r, t) \<Longrightarrow> rs_tunnels t = rs_tunnels s \<and> rs_next_tunnel_id t = rs_next_tunnel_id s
     \<and> rs_known_peers t = rs_known_peers s"
  by (auto simp: tunnel_send_def Let_def split: if_splits option.splits)

lemma status_ok_step:
  assumes "status_ok s" "status_step env s t"
  shows "status_ok t"
  using assms(2)
proof (cases rule: status_step.cases)
  case (opened now k network r)
  then show ?thesis using status_ok_open [OF assms(1)] by simp
next
  case (routed now k payload)
  then show ?thesis using status_ok_route [OF assms(1)] by simp
next
  case (sent tu payload r)
  then show ?thesis using tunnel_send_same [OF sent] assms(1) by (intro status_ok_cong [OF assms(1)]) (simp_all add: status_ok_def)
next
  case (dropped tu)
  then show ?thesis using assms(1) by (simp add: drop_tunnel_def status_ok_close)
next
  case transport_cleared
  then show ?thesis using assms(1)
    by (simp add: status_ok_def clear_transport_def circuits_ok_def served_circuit circuit_def)
next
  case (disconnected err)
  then show ?thesis using assms(1)
    by (intro status_ok_cong [OF assms(1)]) (auto simp: setter_defs status_ok_def Let_def split: option.splits)
qed (use assms(1) in \<open>(intro status_ok_cong [OF assms(1)]; force simp: setter_defs status_ok_def)\<close>)+

interpretation relay_status: step_invariant "\<lambda>s. s = relay_status_new" "status_step env" status_ok
proof (unfold_locales, goal_cases)
  case (1 s)
  then show ?case by (auto simp: status_ok_def relay_status_new_def circuits_ok_def served_circuit circuit_def)
next
  case (2 s t)
  then show ?case by (rule status_ok_step)
qed

section \<open>Properties\<close>

text \<open>Channels as queues with a capacity (unbounded for the outbound sink), for concrete runs.\<close>

definition queue_env :: "(nat \<times> bytes list, nat \<times> relay_tunnel list, relay_message list) chan_env" where
  "queue_env = \<lparr> tunnel_chan = (\<lambda>cap. (cap, [])),
     tunnel_try_send = (\<lambda>(cap, q) p. if length q < cap then Some (cap, q @ [p]) else None),
     accept_chan = (\<lambda>cap. (cap, [])),
     accept_try_send = (\<lambda>(cap, q) t. if length q < cap then Some (cap, q @ [t]) else None),
     out_send = (\<lambda>q m. Some (q @ [m])) \<rparr>"

definition held_status :: "string \<Rightarrow> (nat \<times> bytes list, nat \<times> relay_tunnel list, relay_message list) relay_status" where
  "held_status me = set_connected (enable_accept queue_env (set_transport relay_status_new me ''net'' [])) 1"

definition client_hello :: bytes where
  "client_hello = [0x16, 3, 1, 0, 1, 1]"

lemma held_status_simps [simp]:
  "rs_tunnels (held_status me) = []" "rs_next_tunnel_id (held_status me) = 0" "rs_local_peer_id (held_status me) = Some me"
  "rs_inbound_accept (held_status me) = Some (INBOUND_ACCEPT_CAP, [])" "rs_outbound (held_status me) = Some []"
  "rs_local_network_id (held_status me) = Some ''net''" "rs_relay_seq (held_status me) = 0"
  "relay_transport_ready (held_status me)" "circuit (held_status me) k = None"
  by (simp_all add: held_status_def relay_status_new_def set_connected_def enable_accept_def set_transport_def
    transition_to_def queue_env_def relay_transport_ready_def is_connected_def state_def circuit_def from_u8_def)

lemma client_hello_simps [simp]: "is_tls_client_hello client_hello" "length client_hello = 6"
  by (simp_all add: client_hello_def is_tls_client_hello_def)

text \<open>Under every sequence of operations and inbound frames, from the fresh status on, the untrusted relay
  cannot grow the state: at most 1,024 discovered peers, without repetition, at most one circuit per peer, every
  held registration id below the counter, and at most 256 circuits this node serves.\<close>

theorem relay_status_invariant:
  assumes "(status_step env)\<^sup>*\<^sup>* relay_status_new s"
  shows "length (known_peers s) \<le> MAX_KNOWN_PEERS \<and> distinct (map rpi_peer_id (known_peers s))
    \<and> circuits_ok s \<and> card (served s) \<le> MAX_RELAY_TUNNELS"
  using relay_status.inv_reachable [OF refl assms] by (simp add: status_ok_def dp_ok_def known_peers_def)

theorem relay_status_invariant_witness:
  "card (served (route_relayed queue_env 0 relay_status_new ''a'' client_hello)) \<le> 256"
proof -
  have "(status_step queue_env)\<^sup>*\<^sup>* relay_status_new (route_relayed queue_env 0 relay_status_new ''a'' client_hello)"
    by (intro r_into_rtranclp status_step.routed) (simp add: id_room_def relay_status_new_def)
  from relay_status_invariant [OF this] show ?thesis by (simp add: MAX_RELAY_TUNNELS_def)
qed

text \<open>C3.  Only a dialer's opening handshake makes this node serve: when an inbound frame turns a peer into one this
  node serves, the frame is from that very peer, is a ClientHello within the size cap, the responder path is
  on, and the peer had no circuit or lost the tie-break; and no frame changes any circuit but its sender's.\<close>

theorem server_circuit_only_by_hello:
  assumes "circuit_role (route_relayed env now s from p) k = Some Server" "circuit_role s k \<noteq> Some Server" "j \<noteq> from"
  shows "k = from \<and> is_tls_client_hello p \<and> length p \<le> MAX_RELAY_PAYLOAD \<and> rs_inbound_accept s \<noteq> None
    \<and> (circuit s from = None \<or> circuit_role s from = Some Client \<and> \<not> from < or_empty (rs_local_peer_id s))
    \<and> circuit (route_relayed env now s from p) j = circuit s j"
  using assms
  by (cases rule: route_relayed_cases [of s "from" p env now])
    (auto simp: circuit_role_def circuit_simps introduces_def admitted_def split: if_splits)

theorem server_circuit_only_by_hello_witness:
  "circuit_role (route_relayed queue_env 0 (held_status ''b'') ''a'' client_hello) ''a'' = Some Server \<and>
   circuit (route_relayed queue_env 0 (held_status ''b'') ''a'' client_hello) ''c'' = None"
proof -
  have "introduces queue_env (held_status ''b'') ''a'' client_hello"
    by (simp add: introduces_def MAX_RELAY_TUNNELS_def INBOUND_ACCEPT_CAP_def) (simp add: queue_env_def)
  moreover have "route_relayed queue_env 0 (held_status ''b'') ''a'' client_hello =
      accept_introduced queue_env 0 (held_status ''b'') ''a'' client_hello"
    by (cases rule: route_relayed_cases [of "held_status ''b''" "''a''" client_hello queue_env 0])
      (simp_all add: admitted_def MAX_RELAY_PAYLOAD_def or_empty_def)
  ultimately have "circuit_role (route_relayed queue_env 0 (held_status ''b'') ''a'' client_hello) ''a'' = Some Server"
    by (simp add: circuit_role_def circuit_simps server_entry_def)
  with server_circuit_only_by_hello [of queue_env 0 "held_status ''b''" "''a''" client_hello "''a''" "''c''"]
  show ?thesis by (simp add: circuit_role_def)
qed

text \<open>Opening a tunnel, on every branch: it is refused, with the status untouched, exactly when no reservation is
  held, the target is this node, or a circuit to the target carried a frame within the idle window; otherwise
  the target's registration is a fresh client one, and nothing else in the table changes.\<close>

theorem open_tunnel_correct:
  "case open_tunnel env now s k network of
     (Inl m, t) \<Rightarrow> t = s \<and> (\<not> relay_transport_ready s \<or> rs_local_peer_id s = Some k \<and> k \<noteq> []
       \<or> (\<exists>e. circuit s k = Some e \<and> now - te_last_activity e < STALE_CIRCUIT_IDLE))
   | (Inr tu, t) \<Rightarrow> relay_transport_ready s \<and> (rs_local_peer_id s = Some k \<longrightarrow> k = [])
       \<and> (\<forall>e. circuit s k = Some e \<longrightarrow> STALE_CIRCUIT_IDLE \<le> now - te_last_activity e)
       \<and> tu = \<lparr> tu_target = k, tu_network_id = network, tu_id = rs_next_tunnel_id s \<rparr>
       \<and> circuit t = (circuit s)(k \<mapsto> \<lparr> te_role = Client, te_id = rs_next_tunnel_id s, te_last_activity = now \<rparr>)"
proof (cases rule: open_tunnel_cases [of env now s k network])
  case (refused m)
  then show ?thesis by (auto simp: or_empty_def split: option.splits)
next
  case (opened t s')
  then show ?thesis
    by (auto simp: circuit_insert_entry [OF opened(2)] insert_entry_tunnel [OF opened(2)] or_empty_def split: option.splits)
qed

theorem open_tunnel_correct_witness:
  "\<exists>tu t. open_tunnel queue_env 0 (held_status ''b'') ''a'' ''net'' = (Inr tu, t) \<and> circuit_role t ''a'' = Some Client"
proof (cases "open_tunnel queue_env 0 (held_status ''b'') ''a'' ''net''")
  case (Pair r t)
  with open_tunnel_correct [where env = queue_env and now = 0 and s = "held_status ''b''" and k = "''a''" and network = "''net''"] show ?thesis
    by (cases r) (simp_all add: circuit_role_def)
qed

text \<open>Replacing a stale circuit: the displaced tunnel's late \<open>Drop\<close> removes nothing, and the new tunnel's own
  removes exactly its registration.\<close>

theorem stale_drop_harmless:
  assumes "circuits_ok s" "circuit s k = Some old" "open_tunnel env now s k network = (Ok tu, t)"
  shows "STALE_CIRCUIT_IDLE \<le> now - te_last_activity old \<and> tu_id tu \<noteq> te_id old
    \<and> circuit_holder (drop_tunnel t \<lparr> tu_target = k, tu_network_id = n, tu_id = te_id old \<rparr>) = circuit_holder t
    \<and> circuit_holder (drop_tunnel t tu) = (circuit_holder s)(k := None)"
proof (cases rule: open_tunnel_cases [of env now s k network])
  case (refused m)
  with assms(3) show ?thesis by simp
next
  case (opened u s')
  then have u: "u = tu" "s' = t" using assms(3) by simp_all
  have reg: "register_circuit env now network Client s k = (tu_id tu, t)"
    using opened(2) by (simp add: register_circuit_def u)
  have old: "circuit_holder s k = Some (te_id old)" by (simp add: circuit_holder_def assms(2))
  have "tu_target tu = k" using insert_entry_simps(1) [OF opened(2)] by (simp add: u)
  then show ?thesis
    using circuits.stale_release [OF assms(1) old reg] circuits.own_release [OF reg] opened(5) [OF assms(2)]
    by (auto simp: drop_tunnel_def)
qed

end
