(* ===== verification/Glare.thy ===== *)
theory Glare imports Relay_Tunnels begin

text \<open>
  Two nodes that dial each other through the relay (the glare of \<open>RelayStatus::route_relayed\<close> and
  \<open>open_tunnel\<close> in \<open>src/src/relay.rs\<close>).

  The system holds the status of both nodes.  A step is a dial (\<open>open_tunnel\<close>, then the ClientHello through
  \<open>RelayTunnel::send\<close>), any other frame sent over a tunnel, or the relay forwarding one queued frame, which
  need not be the oldest, to the other node's \<open>route_relayed\<close>.  Each node dials at most once, and all
  happens within one idle window from \<open>t0\<close>.  Channels are the queues of \<open>queue_env\<close>.
\<close>

type_synonym node = "(nat \<times> bytes list, nat \<times> relay_tunnel list, relay_message list) relay_status"

record pair =
  nodes :: "string \<Rightarrow> node"
  dialed :: "string \<Rightarrow> bool"

fun is_hello :: "relay_message \<Rightarrow> bool" where
  "is_hello (RelayGossipMessage _ _ payload _) = is_tls_client_hello payload"
| "is_hello _ = False"

definition hellos :: "node \<Rightarrow> nat" where
  "hellos s = (case rs_outbound s of None \<Rightarrow> 0 | Some q \<Rightarrow> length (filter is_hello q))"

definition dial :: "nat \<Rightarrow> node \<Rightarrow> string \<Rightarrow> string \<Rightarrow> bytes \<Rightarrow> node" where
  "dial now s peer network hello =
    (case open_tunnel queue_env now s peer network of
       (Inl _, s) \<Rightarrow> s
     | (Inr tu, s) \<Rightarrow> snd (tunnel_send queue_env s tu hello))"

definition window :: "nat \<Rightarrow> nat \<Rightarrow> bool" where
  "window t0 now \<longleftrightarrow> t0 \<le> now \<and> now < t0 + STALE_CIRCUIT_IDLE"

inductive glare_step :: "string \<Rightarrow> string \<Rightarrow> nat \<Rightarrow> pair \<Rightarrow> pair \<Rightarrow> bool" for a b t0 where
  dials: "(me, peer) \<in> {(a, b), (b, a)} \<Longrightarrow> \<not> dialed g me \<Longrightarrow> window t0 now \<Longrightarrow>
    is_tls_client_hello hello \<Longrightarrow> length hello \<le> MAX_RELAY_PAYLOAD \<Longrightarrow>
    glare_step a b t0 g \<lparr> nodes = (nodes g)(me := dial now (nodes g me) peer network hello), dialed = (dialed g)(me := True) \<rparr>"
| sends: "(me, peer) \<in> {(a, b), (b, a)} \<Longrightarrow> \<not> is_tls_client_hello payload \<Longrightarrow> tu_target tu = peer \<Longrightarrow>
    glare_step a b t0 g (g\<lparr> nodes := (nodes g)(me := snd (tunnel_send queue_env (nodes g me) tu payload)) \<rparr>)"
| forwards: "(me, peer) \<in> {(a, b), (b, a)} \<Longrightarrow> window t0 now \<Longrightarrow>
    rs_outbound (nodes g me) = Some (q @ RelayGossipMessage src dst payload n # r) \<Longrightarrow>
    glare_step a b t0 g (g\<lparr> nodes := (nodes g)(me := (nodes g me)\<lparr> rs_outbound := Some (q @ r) \<rparr>,
      peer := route_relayed queue_env now (nodes g peer) src payload) \<rparr>)"

inductive_cases glare_stepE: "glare_step a b t0 g h"

section \<open>One node\<close>

definition accepts :: "node \<Rightarrow> string \<Rightarrow> bool" where
  "accepts s peer \<longleftrightarrow> (\<exists>cap q. rs_inbound_accept s = Some (cap, q) \<and> length q < cap)
     \<and> length (AList.delete peer (rs_tunnels s)) < MAX_RELAY_TUNNELS"

definition node_ok :: "nat \<Rightarrow> string \<Rightarrow> string \<Rightarrow> node \<Rightarrow> bool" where
  "node_ok t0 me peer s \<longleftrightarrow>
     is_connected s \<and> rs_local_peer_id s = Some me
     \<and> (\<exists>q. rs_outbound s = Some q \<and> (\<forall>m\<in>set q. \<exists>p n. m = RelayGossipMessage me peer p n \<and> length p \<le> MAX_RELAY_PAYLOAD))
     \<and> (\<forall>e. circuit s peer = Some e \<longrightarrow> t0 \<le> te_last_activity e)
     \<and> (circuit_role s peer \<noteq> Some Server \<longrightarrow> accepts s peer)"

lemma node_ok_ready: "node_ok t0 me peer s \<Longrightarrow> relay_transport_ready s"
  by (auto simp: node_ok_def relay_transport_ready_def)

lemma dial_refused:
  assumes "circuit s peer = Some e" "t0 \<le> te_last_activity e" "window t0 now"
  shows "dial now s peer network hello = s"
proof (cases rule: open_tunnel_cases [of queue_env now s peer network])
  case (refused m)
  then show ?thesis by (simp add: dial_def)
next
  case (opened t s')
  then show ?thesis using assms by (auto simp: window_def)
qed

lemma tunnel_send_Ok:
  assumes "rs_local_peer_id s = Some me" "rs_outbound s = Some q" "length p \<le> MAX_RELAY_PAYLOAD"
  shows "tunnel_send queue_env s tu p =
    (Ok (), s\<lparr> rs_relay_seq := rs_relay_seq s + 1,
       rs_outbound := Some (q @ [RelayGossipMessage me (tu_target tu) p (rs_relay_seq s)]) \<rparr>)"
  using assms by (simp add: tunnel_send_def Let_def) (simp add: queue_env_def)

lemma node_ok_cong:
  assumes "node_ok t0 me peer s" "rs_state t = rs_state s" "rs_local_peer_id t = rs_local_peer_id s"
    "rs_tunnels t = rs_tunnels s" "rs_inbound_accept t = rs_inbound_accept s" "rs_outbound t = Some q"
    "\<forall>m\<in>set q. \<exists>p n. m = RelayGossipMessage me peer p n \<and> length p \<le> MAX_RELAY_PAYLOAD"
  shows "node_ok t0 me peer t" "circuit_role t peer = circuit_role s peer"
  using assms circuit_cong [OF assms(4)]
  by (simp_all add: node_ok_def is_connected_def state_def accepts_def circuit_role_def)

lemma node_send:
  assumes ok: "node_ok t0 me peer s" and tu: "tu_target tu = peer" and t: "t = snd (tunnel_send queue_env s tu p)"
  shows "node_ok t0 me peer t \<and> circuit_role t peer = circuit_role s peer
    \<and> hellos t = hellos s + (if is_tls_client_hello p \<and> length p \<le> MAX_RELAY_PAYLOAD then 1 else 0)"
proof (cases "length p \<le> MAX_RELAY_PAYLOAD")
  case False
  with ok t show ?thesis by (simp add: tunnel_send_def)
next
  case True
  obtain q where q: "rs_local_peer_id s = Some me" "rs_outbound s = Some q"
    "\<forall>m\<in>set q. \<exists>p n. m = RelayGossipMessage me peer p n \<and> length p \<le> MAX_RELAY_PAYLOAD"
    using ok by (auto simp: node_ok_def)
  then have t': "t = s\<lparr> rs_relay_seq := rs_relay_seq s + 1, rs_outbound := Some (q @ [RelayGossipMessage me peer p (rs_relay_seq s)]) \<rparr>"
    using tu t True by (simp add: tunnel_send_Ok)
  have "node_ok t0 me peer t" "circuit_role t peer = circuit_role s peer"
    by (rule node_ok_cong [OF ok, where q = "q @ [RelayGossipMessage me peer p (rs_relay_seq s)]"]; use q True in \<open>simp add: t'\<close>)+
  with True q show ?thesis by (simp add: hellos_def t')
qed

lemma node_pop:
  assumes ok: "node_ok t0 me peer s" and q: "rs_outbound s = Some (q @ m # r)" and t: "t = s\<lparr> rs_outbound := Some (q @ r) \<rparr>"
  shows "node_ok t0 me peer t \<and> circuit_role t peer = circuit_role s peer
    \<and> hellos s = hellos t + (if is_hello m then 1 else 0)
    \<and> (\<exists>p n. m = RelayGossipMessage me peer p n \<and> length p \<le> MAX_RELAY_PAYLOAD)"
proof -
  have "node_ok t0 me peer t" "circuit_role t peer = circuit_role s peer"
    by (rule node_ok_cong [OF ok, where q = "q @ r"]; use ok q in \<open>force simp: t node_ok_def\<close>)+
  then show ?thesis using ok q by (auto simp: hellos_def t node_ok_def)
qed

lemma delete_absent: "circuit s peer = None \<Longrightarrow> AList.delete peer (rs_tunnels s) = rs_tunnels s"
  by (rule delete_id) (simp add: circuit_def map_of_eq_None_iff)

lemma node_dial:
  assumes ok: "node_ok t0 me peer s" and neq: "me \<noteq> peer" and w: "window t0 now"
    and h: "is_tls_client_hello hello" "length hello \<le> MAX_RELAY_PAYLOAD"
    and t: "t = dial now s peer network hello"
  shows "node_ok t0 me peer t \<and>
    (if circuit_role s peer = None then circuit_role t peer = Some Client \<and> hellos t = hellos s + 1
     else circuit_role t peer = circuit_role s peer \<and> hellos t = hellos s)"
proof (cases "circuit s peer")
  case (Some e)
  then have "t = s" using dial_refused [OF Some _ w] ok by (simp add: t node_ok_def)
  with Some ok show ?thesis by (simp add: circuit_role_def)
next
  case None
  obtain u s' where u: "open_tunnel queue_env now s peer network = (Ok u, s')"
      "insert_entry queue_env now s peer network Client = (u, s')"
    by (cases rule: open_tunnel_cases [of queue_env now s peer network])
      (use ok neq None in \<open>auto simp: relay_transport_ready_def node_ok_def or_empty_def\<close>)
  have role: "circuit_role s' peer = Some Client" by (simp add: circuit_role_def circuit_insert_entry [OF u(2)])
  have "accepts s' peer"
    using ok None by (simp add: node_ok_def accepts_def insert_entry_simps [OF u(2)] circuit_role_def delete_update_same)
  then have ok': "node_ok t0 me peer s'"
    using ok w by (simp add: node_ok_def is_connected_def state_def insert_entry_simps [OF u(2)] circuit_insert_entry [OF u(2)] window_def)
  have "t = snd (tunnel_send queue_env s' u hello)" by (simp add: t dial_def u(1))
  from node_send [OF ok' _ this] h None role show ?thesis
    by (simp add: insert_entry_simps [OF u(2)] circuit_role_def hellos_def)
qed

text \<open>The role after a forwarded frame.\<close>

definition role_after :: "string \<Rightarrow> string \<Rightarrow> bool \<Rightarrow> tunnel_role option \<Rightarrow> tunnel_role option" where
  "role_after me peer hello r =
    (if \<not> hello then r
     else case r of None \<Rightarrow> Some Server | Some Server \<Rightarrow> Some Server
       | Some Client \<Rightarrow> if peer < me then Some Client else Some Server)"

lemma accept_introduced_same:
  "rs_state (accept_introduced env now s k p) = rs_state s \<and> rs_local_peer_id (accept_introduced env now s k p) = rs_local_peer_id s
    \<and> rs_outbound (accept_introduced env now s k p) = rs_outbound s"
proof (cases rule: accept_introduced_cases [of env now s k p])
  case (registered t s' tx d)
  then show ?thesis
    by (cases "accept_try_send env tx t") (simp_all add: insert_entry_simps [OF registered(5)])
qed simp

lemma introduces_hello:
  "accepts s peer \<Longrightarrow> circuit s peer = None \<Longrightarrow> is_tls_client_hello p \<Longrightarrow> introduces queue_env s peer p"
  by (auto simp: accepts_def introduces_def delete_absent queue_env_def)

lemma accept_introduced_ok:
  assumes ok: "node_ok t0 me peer s" and none: "circuit s peer = None" and w: "t0 \<le> now" and p: "is_tls_client_hello p"
  shows "node_ok t0 me peer (accept_introduced queue_env now s peer p) \<and>
    circuit_role (accept_introduced queue_env now s peer p) peer = Some Server"
proof -
  have "introduces queue_env s peer p" using ok none p by (intro introduces_hello) (simp_all add: node_ok_def circuit_role_def)
  then have c: "circuit (accept_introduced queue_env now s peer p) = (circuit s)(peer \<mapsto> server_entry now s)"
    by (simp add: circuit_simps)
  with ok w accept_introduced_same [of queue_env now s peer p] show ?thesis
    by (simp add: node_ok_def is_connected_def state_def circuit_role_def server_entry_def)
qed

lemma not_hello_ignored: "\<not> is_tls_client_hello p \<Longrightarrow> accept_introduced env now s k p = s"
  by (simp add: accept_introduced_def)

lemma node_stamp:
  assumes ok: "node_ok t0 me peer s" and e: "circuit s peer = Some e" and w: "t0 \<le> now"
  shows "node_ok t0 me peer (stamp now s peer e)" "circuit_role (stamp now s peer e) peer = circuit_role s peer"
  using assms
  by (simp_all add: node_ok_def is_connected_def state_def circuit_simps circuit_role_def accepts_def)
    (simp add: stamp_def delete_update_same)

lemma node_close:
  assumes ok: "node_ok t0 me peer s" and e: "circuit_role s peer = Some Client"
  shows "node_ok t0 me peer (close_tunnel s peer i)"
proof -
  have "accepts (close_tunnel s peer i) peer"
    using ok e by (simp add: node_ok_def accepts_def close_tunnel_alt delete_idem)
  with ok show ?thesis by (auto simp: node_ok_def is_connected_def state_def circuit_simps)
qed

lemma node_route:
  assumes ok: "node_ok t0 me peer s" and neq: "me \<noteq> peer" and w: "window t0 now" and len: "length p \<le> MAX_RELAY_PAYLOAD"
    and t: "t = route_relayed queue_env now s peer p"
  shows "node_ok t0 me peer t \<and> circuit_role t peer = role_after me peer (is_tls_client_hello p) (circuit_role s peer)
    \<and> hellos t = hellos s"
proof (cases rule: route_relayed_cases [of s peer p queue_env now])
  case dropped
  with ok neq len show ?thesis by (simp add: admitted_def node_ok_def or_empty_def)
next
  case new
  show ?thesis
  proof (cases "is_tls_client_hello p")
    case True
    with accept_introduced_ok [OF ok new(2) _ True] w new accept_introduced_same [of queue_env now s peer p] show ?thesis
      by (simp add: t window_def role_after_def circuit_role_def hellos_def)
  next
    case False
    with ok new show ?thesis by (simp add: t not_hello_ignored role_after_def circuit_role_def)
  qed
next
  case (through e)
  have "node_ok t0 me peer (stamp now s peer e)" using node_stamp [OF ok through(2)] w by (simp add: window_def)
  then have "node_ok t0 me peer t"
    by (simp add: t through(4) node_ok_def is_connected_def state_def circuit_simps circuit_role_def accepts_def)
  with through show ?thesis
    by (auto simp: t role_after_def circuit_role_def circuit_simps hellos_def)
next
  case (retain e)
  then have "peer < me" using ok by (auto simp: node_ok_def or_empty_def circuit_role_def accepts_def)
  with retain node_stamp [OF ok retain(2)] w show ?thesis
    by (simp add: t role_after_def circuit_role_def hellos_def window_def)
next
  case (yield e)
  let ?s = "stamp now s peer e"
  have "circuit_role s peer = Some Client" using yield by (simp add: circuit_role_def)
  then have "node_ok t0 me peer (close_tunnel ?s peer (te_id e))"
    using node_stamp [OF ok yield(2), of now] w by (intro node_close) (simp_all add: window_def)
  moreover have "circuit (close_tunnel ?s peer (te_id e)) peer = None"
    by (simp add: circuit_simps circuit_holder_def)
  ultimately have "node_ok t0 me peer t \<and> circuit_role t peer = Some Server"
    unfolding t yield(7) using w yield(4) by (intro accept_introduced_ok) (simp_all add: window_def)
  with yield ok show ?thesis
    by (simp add: t accept_introduced_same role_after_def circuit_role_def hellos_def node_ok_def or_empty_def)
qed

section \<open>The pair\<close>

text \<open>Roles on both sides, ClientHellos in flight from both sides, and who dialed.\<close>

type_synonym phase = "tunnel_role option \<times> tunnel_role option \<times> nat \<times> nat \<times> bool \<times> bool"

definition phase_of :: "string \<Rightarrow> string \<Rightarrow> pair \<Rightarrow> phase" where
  "phase_of a b g = (circuit_role (nodes g a) b, circuit_role (nodes g b) a, hellos (nodes g a), hellos (nodes g b), dialed g a, dialed g b)"

definition phases :: "phase set" where
  "phases = {(None, None, 0, 0, False, False),
     (Some Client, None, 1, 0, True, False), (None, Some Client, 0, 1, False, True),
     (Some Client, Some Client, 1, 1, True, True), (Some Client, Some Client, 0, 1, True, True),
     (Some Server, Some Client, 1, 0, True, True),
     (Some Client, Some Server, 0, 0, True, False), (Some Client, Some Server, 0, 0, True, True),
     (Some Server, Some Client, 0, 0, False, True), (Some Server, Some Client, 0, 0, True, True)}"

definition glare_start :: "string \<Rightarrow> string \<Rightarrow> nat \<Rightarrow> pair \<Rightarrow> bool" where
  "glare_start a b t0 g \<longleftrightarrow> a < b \<and> node_ok t0 a b (nodes g a) \<and> node_ok t0 b a (nodes g b) \<and>
     phase_of a b g = (None, None, 0, 0, False, False)"

definition glare_inv :: "string \<Rightarrow> string \<Rightarrow> nat \<Rightarrow> pair \<Rightarrow> bool" where
  "glare_inv a b t0 g \<longleftrightarrow> a < b \<and> node_ok t0 a b (nodes g a) \<and> node_ok t0 b a (nodes g b) \<and> phase_of a b g \<in> phases"

text \<open>How a step moves the phase: the dial of either side, and the forwarding of either side's ClientHello.\<close>

definition dial_a :: "phase \<Rightarrow> phase" where
  "dial_a ph = (case ph of (ra, rb, ha, hb, da, db) \<Rightarrow>
     if ra = None then (Some Client, rb, ha + 1, hb, True, db) else (ra, rb, ha, hb, True, db))"

definition dial_b :: "phase \<Rightarrow> phase" where
  "dial_b ph = (case ph of (ra, rb, ha, hb, da, db) \<Rightarrow>
     if rb = None then (ra, Some Client, ha, hb + 1, da, True) else (ra, rb, ha, hb, da, True))"

definition hello_a :: "string \<Rightarrow> string \<Rightarrow> phase \<Rightarrow> phase" where
  "hello_a a b ph = (case ph of (ra, rb, ha, hb, da, db) \<Rightarrow> (ra, role_after b a True rb, ha - 1, hb, da, db))"

definition hello_b :: "string \<Rightarrow> string \<Rightarrow> phase \<Rightarrow> phase" where
  "hello_b a b ph = (case ph of (ra, rb, ha, hb, da, db) \<Rightarrow> (role_after a b True ra, rb, ha, hb - 1, da, db))"

lemma role_after_False [simp]: "role_after me peer False r = r"
  by (simp add: role_after_def)

lemma phase_dial_a: "ph \<in> phases \<Longrightarrow> \<not> fst (snd (snd (snd (snd ph)))) \<Longrightarrow> dial_a ph \<in> phases"
  by (auto simp: phases_def dial_a_def)

lemma phase_dial_b: "ph \<in> phases \<Longrightarrow> \<not> snd (snd (snd (snd (snd ph)))) \<Longrightarrow> dial_b ph \<in> phases"
  by (auto simp: phases_def dial_b_def)

lemma role_after_hello: "a < b \<Longrightarrow> role_after b a True (Some Client) = Some Client" "a < b \<Longrightarrow> role_after a b True (Some Client) = Some Server"
  "role_after me peer True None = Some Server"
  by (simp_all add: role_after_def not_less_iff_gr_or_eq)

lemma phase_hello_a: "a < b \<Longrightarrow> ph \<in> phases \<Longrightarrow> 0 < fst (snd (snd ph)) \<Longrightarrow> hello_a a b ph \<in> phases"
  unfolding phases_def by (elim insertE emptyE; simp add: hello_a_def role_after_hello)

lemma phase_hello_b: "a < b \<Longrightarrow> ph \<in> phases \<Longrightarrow> 0 < fst (snd (snd (snd ph))) \<Longrightarrow> hello_b a b ph \<in> phases"
  unfolding phases_def by (elim insertE emptyE; simp add: hello_b_def role_after_hello)

lemma glare_inv_step:
  assumes inv: "glare_inv a b t0 g" and step: "glare_step a b t0 g h"
  shows "glare_inv a b t0 h"
proof -
  have ab: "a < b" "a \<noteq> b" "node_ok t0 a b (nodes g a)" "node_ok t0 b a (nodes g b)" "phase_of a b g \<in> phases"
    using inv by (auto simp: glare_inv_def)
  show ?thesis using step
  proof (cases rule: glare_step.cases)
    case (dials me peer now hello network)
    then consider "me = a" "peer = b" | "me = b" "peer = a" by blast
    then show ?thesis
    proof cases
      case 1
      note d = node_dial [OF ab(3,2) dials(4,5,6) refl, of network]
      have "phase_of a b h = dial_a (phase_of a b g)"
        using d ab(2) 1 by (auto simp: phase_of_def dial_a_def dials(1))
      then show ?thesis
        using d ab 1 phase_dial_a [OF ab(5)] dials(3) by (auto simp: glare_inv_def dials(1) phase_of_def split: if_splits)
    next
      case 2
      note d = node_dial [OF ab(4) ab(2) [symmetric] dials(4,5,6) refl, of network]
      have "phase_of a b h = dial_b (phase_of a b g)"
        using d ab(2) 2 by (auto simp: phase_of_def dial_b_def dials(1))
      then show ?thesis
        using d ab 2 phase_dial_b [OF ab(5)] dials(3) by (auto simp: glare_inv_def dials(1) phase_of_def split: if_splits)
    qed
  next
    case (sends me peer payload tu)
    then consider "me = a" "peer = b" | "me = b" "peer = a" by blast
    then show ?thesis
    proof cases
      case 1
      from node_send [OF ab(3) _ refl, of tu payload] sends 1 ab show ?thesis
        by (auto simp: glare_inv_def phase_of_def)
    next
      case 2
      from node_send [OF ab(4) _ refl, of tu payload] sends 2 ab show ?thesis
        by (auto simp: glare_inv_def phase_of_def)
    qed
  next
    case (forwards me peer now q src dst payload n r)
    then consider "me = a" "peer = b" | "me = b" "peer = a" by blast
    then show ?thesis
    proof cases
      case 1
      have q: "rs_outbound (nodes g a) = Some (q @ RelayGossipMessage src dst payload n # r)" using forwards(4) 1 by simp
      note p = node_pop [OF ab(3) q refl]
      then have src: "src = a" "length payload \<le> MAX_RELAY_PAYLOAD" by auto
      note rt = node_route [OF ab(4) ab(2) [symmetric] forwards(3) src(2) refl]
      have "phase_of a b h = (if is_tls_client_hello payload then hello_a a b (phase_of a b g) else phase_of a b g)"
        using p rt ab(2) 1 src by (auto simp: phase_of_def hello_a_def forwards(1))
      then show ?thesis
        using p rt ab 1 src phase_hello_a [OF ab(1,5)] by (auto simp: glare_inv_def forwards(1) phase_of_def split: if_splits)
    next
      case 2
      have q: "rs_outbound (nodes g b) = Some (q @ RelayGossipMessage src dst payload n # r)" using forwards(4) 2 by simp
      note p = node_pop [OF ab(4) q refl]
      then have src: "src = b" "length payload \<le> MAX_RELAY_PAYLOAD" by auto
      note rt = node_route [OF ab(3) ab(2) forwards(3) src(2) refl]
      have "phase_of a b h = (if is_tls_client_hello payload then hello_b a b (phase_of a b g) else phase_of a b g)"
        using p rt ab(2) 2 src by (auto simp: phase_of_def hello_b_def forwards(1))
      then show ?thesis
        using p rt ab 2 src phase_hello_b [OF ab(1,5)] by (auto simp: glare_inv_def forwards(1) phase_of_def split: if_splits)
    qed
  qed
qed

interpretation glare: step_invariant "glare_start a b t0" "glare_step a b t0" "glare_inv a b t0"
proof (unfold_locales, goal_cases)
  case (1 g)
  then show ?case by (simp add: glare_start_def glare_inv_def phases_def)
next
  case (2 g h)
  then show ?case by (rule glare_inv_step)
qed

text \<open>A settled pair: one side dialed and no ClientHello is on the way.\<close>

definition settled :: "string \<Rightarrow> string \<Rightarrow> pair \<Rightarrow> bool" where
  "settled a b g \<longleftrightarrow> (dialed g a \<or> dialed g b) \<and> hellos (nodes g a) = 0 \<and> hellos (nodes g b) = 0"

definition one_client_one_server :: "string \<Rightarrow> string \<Rightarrow> pair \<Rightarrow> bool" where
  "one_client_one_server a b g \<longleftrightarrow>
     circuit_role (nodes g a) b = Some Client \<and> circuit_role (nodes g b) a = Some Server \<or>
     circuit_role (nodes g a) b = Some Server \<and> circuit_role (nodes g b) a = Some Client"

lemma settled_roles: "glare_inv a b t0 g \<Longrightarrow> settled a b g \<Longrightarrow> one_client_one_server a b g"
  by (auto simp: glare_inv_def phase_of_def phases_def settled_def one_client_one_server_def)

lemma hello_in_flight:
  assumes "0 < hellos s"
  obtains q m r where "rs_outbound s = Some (q @ m # r)" "is_hello m"
proof -
  obtain qs where qs: "rs_outbound s = Some qs" "filter is_hello qs \<noteq> []"
    using assms by (auto simp: hellos_def split: option.splits)
  then obtain m where "m \<in> set qs" "is_hello m" by (auto simp: filter_empty_conv)
  with qs that show ?thesis by (metis split_list)
qed

lemma forward_one:
  assumes inv: "glare_inv a b t0 g" and mp: "(me, peer) \<in> {(a, b), (b, a)}" and pos: "0 < hellos (nodes g me)"
  shows "\<exists>h. glare_step a b t0 g h \<and> dialed h = dialed g
    \<and> hellos (nodes h a) + hellos (nodes h b) < hellos (nodes g a) + hellos (nodes g b)"
proof -
  have ok: "node_ok t0 me peer (nodes g me)" "node_ok t0 peer me (nodes g peer)" "me \<noteq> peer"
    using inv mp by (auto simp: glare_inv_def)
  obtain q m r where q: "rs_outbound (nodes g me) = Some (q @ m # r)" "is_hello m" using pos by (rule hello_in_flight)
  note p = node_pop [OF ok(1) q(1) refl]
  then obtain payload n where m: "m = RelayGossipMessage me peer payload n" "length payload \<le> MAX_RELAY_PAYLOAD" by blast
  have w: "window t0 t0" by (simp add: window_def STALE_CIRCUIT_IDLE_def)
  note rt = node_route [OF ok(2) ok(3) [symmetric] w m(2) refl]
  have "glare_step a b t0 g (g\<lparr> nodes := (nodes g)(me := (nodes g me)\<lparr> rs_outbound := Some (q @ r) \<rparr>,
      peer := route_relayed queue_env t0 (nodes g peer) me payload) \<rparr>)" (is "glare_step a b t0 g ?h")
    using q(1) m by (intro glare_step.forwards [OF mp w]) simp
  moreover have "hellos (nodes ?h a) + hellos (nodes ?h b) < hellos (nodes g a) + hellos (nodes g b)"
    using mp p rt q(2) ok(3) by auto
  ultimately show ?thesis by (intro exI [of _ ?h]) simp
qed

lemma drain:
  "glare_inv a b t0 g \<Longrightarrow> \<exists>h. (glare_step a b t0)\<^sup>*\<^sup>* g h \<and> dialed h = dialed g \<and> hellos (nodes h a) = 0 \<and> hellos (nodes h b) = 0"
proof (induction "hellos (nodes g a) + hellos (nodes g b)" arbitrary: g rule: less_induct)
  case less
  show ?case
  proof (cases "hellos (nodes g a) = 0 \<and> hellos (nodes g b) = 0")
    case True
    then show ?thesis by blast
  next
    case False
    then obtain h where h: "glare_step a b t0 g h" "dialed h = dialed g"
        "hellos (nodes h a) + hellos (nodes h b) < hellos (nodes g a) + hellos (nodes g b)"
      using forward_one [OF less.prems, of a b] forward_one [OF less.prems, of b a] by blast
    with less.hyps [OF h(3) glare_inv_step [OF less.prems h(1)]] show ?thesis
      by (metis converse_rtranclp_into_rtranclp)
  qed
qed

section \<open>Properties\<close>

lemma string_a_b: "''a'' < ''b''" "''a'' \<noteq> ''b''"
  by (simp_all add: less_char_def)

definition fresh_pair :: pair where
  "fresh_pair = \<lparr> nodes = held_status, dialed = (\<lambda>_. False) \<rparr>"

lemma node_ok_held: "node_ok 0 me peer (held_status me)"
proof -
  have "is_connected (held_status me)" using held_status_simps(8) [of me] by (simp only: relay_transport_ready_def)
  then show ?thesis
    by (simp add: node_ok_def accepts_def circuit_role_def INBOUND_ACCEPT_CAP_def MAX_RELAY_TUNNELS_def)
qed

lemma fresh_pair_start: "glare_start ''a'' ''b'' 0 fresh_pair"
  by (simp add: glare_start_def fresh_pair_def node_ok_held string_a_b phase_of_def circuit_role_def hellos_def)

text \<open>C2.  Two nodes that dial each other converge: whatever the order of the dials, of the frames on either side and
  of their delivery, once one of them dialed and no ClientHello is in flight, exactly one of them is the TLS
  client and the other the server.  (A frame is routed in one step; what a dial between the two lock
  regions of \<open>route_relayed\<close> does is stated apart.)\<close>

theorem glare_converges:
  assumes "glare_start a b t0 g0" "(glare_step a b t0)\<^sup>*\<^sup>* g0 g" "settled a b g"
  shows "one_client_one_server a b g"
  using settled_roles [OF glare.inv_reachable [OF assms(1,2)] assms(3)] .

text \<open>The run in which both dial before either ClientHello is delivered.\<close>

definition crossed_pair :: pair where
  "crossed_pair =
    (let sa = dial 0 (held_status ''a'') ''b'' ''net'' client_hello; sb = dial 0 (held_status ''b'') ''a'' ''net'' client_hello
     in \<lparr> nodes = held_status(''a'' := sa, ''b'' := sb), dialed = (\<lambda>_. False)(''a'' := True, ''b'' := True) \<rparr>)"

lemma crossed_pair_reachable: "(glare_step ''a'' ''b'' 0)\<^sup>*\<^sup>* fresh_pair crossed_pair"
proof -
  have w: "window 0 0" by (simp add: window_def STALE_CIRCUIT_IDLE_def)
  have len: "length client_hello \<le> MAX_RELAY_PAYLOAD" by (simp add: MAX_RELAY_PAYLOAD_def)
  let ?g = "\<lparr> nodes = held_status(''a'' := dial 0 (held_status ''a'') ''b'' ''net'' client_hello), dialed = (\<lambda>_. False)(''a'' := True) \<rparr>"
  have "glare_step ''a'' ''b'' 0 fresh_pair ?g"
    using glare_step.dials [of "''a''" "''b''" "''a''" "''b''" fresh_pair 0 0 client_hello "''net''"] w len by (simp add: fresh_pair_def)
  moreover have "glare_step ''a'' ''b'' 0 ?g crossed_pair"
    using glare_step.dials [of "''b''" "''a''" "''a''" "''b''" ?g 0 0 client_hello "''net''"] w len
    by (simp add: crossed_pair_def Let_def)
  ultimately show ?thesis by (meson converse_rtranclp_into_rtranclp r_into_rtranclp)
qed

theorem glare_converges_witness:
  "\<exists>h. (glare_step ''a'' ''b'' 0)\<^sup>*\<^sup>* crossed_pair h \<and> one_client_one_server ''a'' ''b'' h"
proof -
  have "glare_inv ''a'' ''b'' 0 crossed_pair"
    using glare.inv_reachable [OF fresh_pair_start crossed_pair_reachable] .
  then obtain h where h: "(glare_step ''a'' ''b'' 0)\<^sup>*\<^sup>* crossed_pair h" "dialed h = dialed crossed_pair"
      "hellos (nodes h ''a'') = 0" "hellos (nodes h ''b'') = 0" using drain by blast
  then have "settled ''a'' ''b'' h" by (simp add: settled_def crossed_pair_def Let_def)
  with h(1) glare_converges [OF fresh_pair_start rtranclp_trans [OF crossed_pair_reachable h(1)]] show ?thesis by blast
qed

text \<open>C22.  The pair never gets stuck before it converges: from every reachable state in which a dial was made, the
  delivery of the frames in flight alone leads to one client and one server.\<close>

theorem glare_progress:
  assumes "glare_start a b t0 g0" "(glare_step a b t0)\<^sup>*\<^sup>* g0 g" "dialed g a \<or> dialed g b"
  shows "\<exists>h. (glare_step a b t0)\<^sup>*\<^sup>* g h \<and> dialed h = dialed g \<and> settled a b h \<and> one_client_one_server a b h"
proof -
  have inv: "glare_inv a b t0 g" using glare.inv_reachable [OF assms(1,2)] .
  then obtain h where h: "(glare_step a b t0)\<^sup>*\<^sup>* g h" "dialed h = dialed g"
      "hellos (nodes h a) = 0" "hellos (nodes h b) = 0" using drain by blast
  then have "settled a b h" using assms(3) by (simp add: settled_def)
  with h settled_roles [OF glare.inv_steps [OF h(1) inv]] show ?thesis by blast
qed

theorem glare_progress_witness:
  "\<exists>h. (glare_step ''a'' ''b'' 0)\<^sup>*\<^sup>* crossed_pair h \<and> settled ''a'' ''b'' h \<and> one_client_one_server ''a'' ''b'' h"
  using glare_progress [OF fresh_pair_start crossed_pair_reachable] by (auto simp: crossed_pair_def Let_def)

text \<open>C38.  The two lock regions of \<open>route_relayed\<close> leave a gap.  When a node's first dial to its peer registers after
  the decision to accept the peer's ClientHello and before \<open>accept_introduced\<close> takes the lock again, the
  introduced circuit is dropped while the dial goes on; if the peer has the higher id it then ignores this
  node's ClientHello.  Both ends are left as TLS clients and no server ever answers.\<close>

theorem glare_race_leaves_no_server:
  assumes "a < b" "node_ok t0 a b sa" "circuit sa b = None" "node_ok t0 b a sb" "circuit_role sb a = Some Client"
    and "is_tls_client_hello from_b" "length from_b \<le> MAX_RELAY_PAYLOAD"
    and "is_tls_client_hello from_a" "length from_a \<le> MAX_RELAY_PAYLOAD" "window t0 now"
    and "route_decision now sa a b from_b = (r, decided)"
    and "served_late = accept_introduced queue_env now (dial now decided b network from_a) b from_b"
  shows "r = Accept \<and> circuit_role served_late b = Some Client \<and> hellos served_late = hellos sa + 1
    \<and> circuit_role (route_relayed queue_env now sb a from_a) a = Some Client"
proof -
  have ne: "a \<noteq> b" using assms(1) by auto
  have d: "r = Accept" "decided = sa"
    using assms(3,11) by (cases rule: route_decision_cases [of sa b now a from_b]; simp)+
  note dl = node_dial [OF assms(2) ne assms(10,8,9) refl, of network]
  have cl: "circuit_role (dial now sa b network from_a) b = Some Client" "hellos (dial now sa b network from_a) = hellos sa + 1"
    using dl assms(3) by (simp_all add: circuit_role_def)
  then have "\<not> introduces queue_env (dial now sa b network from_a) b from_b"
    by (auto simp: introduces_def circuit_role_def)
  then have "circuit_role served_late b = Some Client" "hellos served_late = hellos sa + 1"
    using cl accept_introduced_same [of queue_env now "dial now sa b network from_a" b from_b]
    by (simp_all add: assms(12) d circuit_role_def circuit_simps hellos_def)
  moreover have "circuit_role (route_relayed queue_env now sb a from_a) a = Some Client"
    using node_route [OF assms(4) ne [symmetric] assms(10,9) refl] assms(1,5,8) by (simp add: role_after_hello)
  ultimately show ?thesis using d by simp
qed

theorem glare_race_leaves_no_server_witness:
  "circuit_role (accept_introduced queue_env 0 (dial 0 (held_status ''a'') ''b'' ''net'' client_hello) ''b'' client_hello) ''b'' = Some Client
   \<and> circuit_role (route_relayed queue_env 0 (dial 0 (held_status ''b'') ''a'' ''net'' client_hello) ''a'' client_hello) ''a'' = Some Client"
proof -
  have w: "window 0 0" by (simp add: window_def STALE_CIRCUIT_IDLE_def)
  have len: "length client_hello \<le> MAX_RELAY_PAYLOAD" by (simp add: MAX_RELAY_PAYLOAD_def)
  have b: "node_ok 0 ''b'' ''a'' (dial 0 (held_status ''b'') ''a'' ''net'' client_hello)"
      "circuit_role (dial 0 (held_status ''b'') ''a'' ''net'' client_hello) ''a'' = Some Client"
    using node_dial [OF node_ok_held _ w client_hello_simps(1) len refl, of "''b''" "''a''" "''net''"]
    by (simp_all add: circuit_role_def)
  have "route_decision 0 (held_status ''a'') ''a'' ''b'' client_hello = (Accept, held_status ''a'')"
    by (simp add: route_decision_def)
  from glare_race_leaves_no_server [OF string_a_b(1) node_ok_held _ b client_hello_simps(1) len client_hello_simps(1) len w this refl]
  show ?thesis by simp
qed

end
