(* ===== verification/Relay_Session.thy ===== *)
theory Relay_Session imports Relay_Tunnels Dialer begin

text \<open>
  The held relay reservation (\<open>src/src/relay.rs\<close>): resolving and opening the WebSocket, one
  connect-register-serve cycle, the select loop of a session, the handling of an inbound frame and the
  reconnect loop.

  JSON, the WebSocket, DNS and the family-selecting connect are the record \<open>session_env\<close>; a socket is
  \<open>'w\<close>.  The arms \<open>tokio::select!\<close> takes are a list of events: a keepalive or discovery tick, the
  outbound channel being readable, a frame (or the end, or an error) read from the socket, or an operation
  another task performs on the shared status between two polls.  A session whose events ran out is still
  being served.
\<close>

section \<open>The outside world\<close>

datatype ws_message = WsText string | WsBinary bytes | WsPing bytes | WsPong bytes | WsClose | WsFrame

record ('c, 'd, 'o, 'w, 'io, 'stack, 'cands) session_env =
  se_chan :: "('c, 'd, 'o) chan_env"
  se_out_new :: 'o
  se_out_recv :: "'o \<Rightarrow> (relay_message \<times> 'o) option"
  se_out_close :: "'o \<Rightarrow> 'o"
  se_parse :: "bytes \<Rightarrow> relay_message option"
  se_render :: "relay_message \<Rightarrow> (string, string) result"
  se_ws_send :: "'w \<Rightarrow> ws_message \<Rightarrow> (string, unit) result \<times> 'w"
  se_parse_ip :: "string \<Rightarrow> ip_addr option"
  se_lookup_host :: "string \<Rightarrow> u16 \<Rightarrow> (string, socket_addr list) result future"
  se_cands_new :: 'cands
  se_cands_add :: "'cands \<Rightarrow> socket_addr \<Rightarrow> candidate_source \<Rightarrow> 'cands"
  se_cands_is_empty :: "'cands \<Rightarrow> bool"
  se_stack :: 'stack
  se_dial_config :: dial_config
  se_ip_connect :: "'stack \<Rightarrow> 'cands \<Rightarrow> dial_config \<Rightarrow> (socket_addr \<Rightarrow> (string, 'io) result future) \<Rightarrow>
      (string, 'io \<times> socket_addr) result future"
  se_tcp_connect :: "socket_addr \<Rightarrow> (string, 'io) result future"
  se_show_addr :: "socket_addr \<Rightarrow> string"
  se_ws_handshake :: "string \<Rightarrow> 'io \<Rightarrow> (string, 'w) result future"

section \<open>Opening the socket\<close>

definition source_for :: "ip_addr \<Rightarrow> candidate_source" where
  "source_for ip = (case ip of IpV6 _ \<Rightarrow> DnsAAAA | IpV4 _ \<Rightarrow> DnsA)"

definition resolve_relay_candidates ::
  "('c, 'd, 'o, 'w, 'io, 'stack, 'cands) session_env \<Rightarrow> string \<Rightarrow> u16 \<Rightarrow> (string, 'cands) result future" where
  "resolve_relay_candidates env host port =
    await_ok
      (case se_parse_ip env host of
         Some ip \<Rightarrow> ready (Ok (se_cands_add env (se_cands_new env) (SocketAddr ip port) (source_for ip)))
       | None \<Rightarrow>
           await_ok (map_future (map_err (\<lambda>e. ''resolve '' @ host @ '':'' @ show_nat (unat port) @ '': '' @ e)) (se_lookup_host env host port))
             (\<lambda>resolved. ready (Ok (foldl (\<lambda>cs addr. se_cands_add env cs addr (source_for (sa_ip addr))) (se_cands_new env) resolved))))
      (\<lambda>candidates.
         if se_cands_is_empty env candidates
         then ready (Err (''no addresses resolved for '' @ host @ '':'' @ show_nat (unat port)))
         else ready (Ok candidates))"

definition race_relay_candidates ::
  "('c, 'd, 'o, 'w, 'io, 'stack, 'cands) session_env \<Rightarrow> 'stack \<Rightarrow> 'cands \<Rightarrow> dial_config \<Rightarrow>
   (socket_addr \<Rightarrow> (string, 'io) result future) \<Rightarrow> (string, 'io \<times> socket_addr) result future" where
  "race_relay_candidates env stack candidates config dial_fn =
    map_future (map_err (\<lambda>e. ''relay happy-eyeballs dial: '' @ e)) (se_ip_connect env stack candidates config dial_fn)"

definition open_relay_ws ::
  "('c, 'd, 'o, 'w, 'io, 'stack, 'cands) session_env \<Rightarrow> string \<Rightarrow> (string, 'w) result future" where
  "open_relay_ws env endpoint =
    await_ok (ready (parse_relay_endpoint endpoint)) (\<lambda>parsed.
    await_ok (resolve_relay_candidates env (re_host parsed) (re_port parsed)) (\<lambda>candidates.
    await_ok (race_relay_candidates env (se_stack env) candidates (se_dial_config env)
        (\<lambda>addr. map_future (map_err (\<lambda>e. ''tcp connect '' @ se_show_addr env addr @ '': '' @ e)) (se_tcp_connect env addr)))
      (\<lambda>winner. map_future (map_err (\<lambda>e. ''ws handshake: '' @ e)) (se_ws_handshake env endpoint (fst winner)))))"

section \<open>One frame\<close>

definition send :: "('c, 'd, 'o, 'w, 'io, 'stack, 'cands) session_env \<Rightarrow> 'w \<Rightarrow> relay_message \<Rightarrow> (string, unit) result \<times> 'w" where
  "send env write msg =
    (case se_render env msg of
       Inl e \<Rightarrow> (Err (''encode: '' @ e), write)
     | Inr txt \<Rightarrow> (case se_ws_send env write (WsText txt) of (r, write) \<Rightarrow> (map_err (\<lambda>e. ''send: '' @ e) r, write)))"

definition handle_incoming ::
  "('c, 'd, 'o, 'w, 'io, 'stack, 'cands) session_env \<Rightarrow> nat \<Rightarrow> bytes \<Rightarrow> 'w \<Rightarrow> ('c, 'd, 'o) relay_status \<Rightarrow>
   (string, unit) result \<times> 'w \<times> ('c, 'd, 'o) relay_status" where
  "handle_incoming env now bytes write status =
    (case se_parse env bytes of
       None \<Rightarrow> (Ok (), write, status)
     | Some msg \<Rightarrow>
         (case msg of
            RegisterAck success message connected_peers \<Rightarrow>
              if success then (Ok (), write, set_connected status (of_nat connected_peers))
              else (Err (''register rejected: '' @ message), write, status)
          | Ping timestamp \<Rightarrow> (case send env write (Pong timestamp) of (r, write) \<Rightarrow> (r, write, status))
          | Peers peers \<Rightarrow> (Ok (), write, replace_known_peers status peers)
          | PeerConnected peer \<Rightarrow> (Ok (), write, add_known_peer status peer)
          | PeerDisconnected peer_id \<Rightarrow> (Ok (), write, remove_known_peer status peer_id)
          | RelayGossipMessage from to payload seq \<Rightarrow> (Ok (), write, route_relayed (se_chan env) now status from payload)
          | GetDhtRecords max_keys \<Rightarrow>
              (case rs_dht_records status of
                 None \<Rightarrow> (Ok (), write, status)
               | Some reader \<Rightarrow>
                   let answer = reader max_keys in
                   (case send env write (DhtRecords (dra_records answer) (dra_total_keys answer) (dra_truncated answer)) of
                      (r, write) \<Rightarrow> (r, write, status)))
          | DhtRecords records total_keys truncated \<Rightarrow> (Ok (), write, status)
          | RelayError code message \<Rightarrow>
              if relay_error_is_fatal code
              then (Err (''relay error '' @ show_nat (unat code) @ '': '' @ message), write, status)
              else (Ok (), write, status)
          | _ \<Rightarrow> (Ok (), write, status)))"

section \<open>The select loop\<close>

text \<open>What another task does to the status while the session is served.\<close>

datatype local_op =
    LocalOpen nat string string
  | LocalSend relay_tunnel bytes
  | LocalDrop relay_tunnel
  | LocalAccept

definition local_step :: "('c, 'd, 'o) chan_env \<Rightarrow> local_op \<Rightarrow> ('c, 'd, 'o) relay_status \<Rightarrow> ('c, 'd, 'o) relay_status" where
  "local_step env op s =
    (case op of
       LocalOpen now target network \<Rightarrow> snd (open_tunnel env now s target network)
     | LocalSend tunnel payload \<Rightarrow> snd (tunnel_send env s tunnel payload)
     | LocalDrop tunnel \<Rightarrow> drop_tunnel s tunnel
     | LocalAccept \<Rightarrow> enable_accept env s)"

datatype event =
    PingTick u64
  | DiscoveryTick
  | OutboundReady
  | Incoming nat "(string, ws_message) result option"
  | Elsewhere local_op

text \<open>One arm of the \<open>select!\<close>; \<open>None\<close> goes round the loop again.  \<open>continue\<close> is \<open>f.await?;\<close>.\<close>

definition continue :: "(string, unit) result \<times> 'w \<times> 's \<Rightarrow> (string, unit) result option \<times> 'w \<times> 's" where
  "continue r = (case r of (Inl e, w, s) \<Rightarrow> (Some (Err e), w, s) | (Inr u, w, s) \<Rightarrow> (None, w, s))"

definition serve_event ::
  "('c, 'd, 'o, 'w, 'io, 'stack, 'cands) session_env \<Rightarrow> string \<Rightarrow> event \<Rightarrow> 'w \<Rightarrow> ('c, 'd, 'o) relay_status \<Rightarrow>
   (string, unit) result option \<times> 'w \<times> ('c, 'd, 'o) relay_status" where
  "serve_event env network_id ev write status =
    (case ev of
       PingTick timestamp \<Rightarrow> (case send env write (Ping timestamp) of (r, write) \<Rightarrow> continue (r, write, status))
     | DiscoveryTick \<Rightarrow> (case send env write (GetPeers (Some network_id)) of (r, write) \<Rightarrow> continue (r, write, status))
     | OutboundReady \<Rightarrow>
         (case rs_outbound status of
            None \<Rightarrow> (None, write, status)
          | Some out \<Rightarrow>
              (case se_out_recv env out of
                 None \<Rightarrow> (None, write, status)
               | Some (frame, out) \<Rightarrow>
                   (case send env write frame of (r, write) \<Rightarrow> continue (r, write, status\<lparr> rs_outbound := Some out \<rparr>))))
     | Incoming now frame \<Rightarrow>
         (case frame of
            None \<Rightarrow> (Some (Ok ()), write, status)
          | Some (Inl e) \<Rightarrow> (Some (Err (''read: '' @ e)), write, status)
          | Some (Inr m) \<Rightarrow>
              (case m of
                 WsClose \<Rightarrow> (Some (Ok ()), write, status)
               | WsPing p \<Rightarrow> (case se_ws_send env write (WsPong p) of
                     (r, write) \<Rightarrow> continue (map_err (\<lambda>e. ''pong: '' @ e) r, write, status))
               | WsPong _ \<Rightarrow> (None, write, status)
               | WsFrame \<Rightarrow> (None, write, status)
               | WsText t \<Rightarrow> continue (handle_incoming env now (into_bytes t) write status)
               | WsBinary b \<Rightarrow> continue (handle_incoming env now b write status)))
     | Elsewhere op \<Rightarrow> (None, write, local_step (se_chan env) op status))"

fun serve_session ::
  "('c, 'd, 'o, 'w, 'io, 'stack, 'cands) session_env \<Rightarrow> string \<Rightarrow> event list \<Rightarrow> 'w \<Rightarrow> ('c, 'd, 'o) relay_status \<Rightarrow>
   (string, unit) result option \<times> 'w \<times> ('c, 'd, 'o) relay_status" where
  "serve_session env network_id [] write status = (None, write, status)"
| "serve_session env network_id (ev # evs) write status =
    (case serve_event env network_id ev write status of
       (Some r, write, status) \<Rightarrow> (Some r, write, status)
     | (None, write, status) \<Rightarrow> serve_session env network_id evs write status)"

section \<open>One connect, register, serve cycle\<close>

text \<open>\<open>None\<close> is a cycle that did not end: the connect hangs or the session is still served.  The receiver of the
  outbound channel is dropped when the cycle returns.\<close>

definition connect_once ::
  "('c, 'd, 'o, 'w, 'io, 'stack, 'cands) session_env \<Rightarrow> string \<Rightarrow> string \<Rightarrow> string \<Rightarrow> socket_addr list \<Rightarrow> event list \<Rightarrow>
   ('c, 'd, 'o) relay_status \<Rightarrow> (string, unit) result option \<times> ('c, 'd, 'o) relay_status" where
  "connect_once env endpoint peer_id network_id listen_addrs evs status =
    (let status = clear_transport (clear_known_peers status) in
     (case open_relay_ws env endpoint of
        None \<Rightarrow> (None, status)
      | Some (_, Inl e) \<Rightarrow> (Some (Err e), status)
      | Some (_, Inr write) \<Rightarrow>
          (case send env write (Register peer_id network_id RELAY_PROTOCOL_VERSION listen_addrs) of
             (Inl e, _) \<Rightarrow> (Some (Err e), status)
           | (Inr _, write) \<Rightarrow>
               let status = set_transport status peer_id network_id (se_out_new env) in
               (case send env write (GetPeers (Some network_id)) of
                  (Inl e, _) \<Rightarrow> (Some (Err e), status\<lparr> rs_outbound := map_option (se_out_close env) (rs_outbound status) \<rparr>)
                | (Inr _, write) \<Rightarrow>
                    (case serve_session env network_id evs write status of
                       (None, _, status) \<Rightarrow> (None, status)
                     | (Some r, _, status) \<Rightarrow> (Some r, clear_transport status))))))"

section \<open>The reconnect loop\<close>

text \<open>The outside world and the events of each attempt are given; the result lists how each attempt ended and
  the delay slept after it, and stops at an attempt that does not end.\<close>

fun run_relay_connection_with ::
  "string \<Rightarrow> string \<Rightarrow> string \<Rightarrow> socket_addr list \<Rightarrow> backoff \<Rightarrow>
   (('c, 'd, 'o, 'w, 'io, 'stack, 'cands) session_env \<times> event list) list \<Rightarrow> u32 \<Rightarrow> ('c, 'd, 'o) relay_status \<Rightarrow>
   (((string, unit) result \<times> u64) list \<times> u32 \<times> ('c, 'd, 'o) relay_status) may_panic" where
  "run_relay_connection_with endpoint peer_id network_id listen_addrs bo [] failures status = Some ([], failures, status)"
| "run_relay_connection_with endpoint peer_id network_id listen_addrs bo ((env, evs) # attempts) failures status =
    (case connect_once env endpoint peer_id network_id listen_addrs evs (set_connecting status) of
       (None, status) \<Rightarrow> Some ([], failures, status)
     | (Some r, status) \<Rightarrow>
         let (failures, status) =
           (case r of
              Inr _ \<Rightarrow> (0, set_disconnected status None)
            | Inl e \<Rightarrow> (saturating_inc failures, set_disconnected status (Some e))) in
         (case backoff_secs_with failures (base_secs bo) (cap_secs bo) of
            None \<Rightarrow> None
          | Some delay \<Rightarrow>
              map_option (\<lambda>(slept, rest). ((r, delay) # slept, rest))
                (run_relay_connection_with endpoint peer_id network_id listen_addrs bo attempts failures status)))"

definition run_relay_connection where
  "run_relay_connection endpoint peer_id network_id listen_addrs attempts status =
     run_relay_connection_with endpoint peer_id network_id listen_addrs backoff_default attempts 0 status"

section \<open>The status invariant through a session\<close>

text \<open>There is room for \<open>n\<close> more registrations before the 64-bit id counter wraps.\<close>

definition ids_left :: "('c, 'd, 'o) relay_status \<Rightarrow> nat \<Rightarrow> bool" where
  "ids_left s n \<longleftrightarrow> unat (rs_next_tunnel_id s) + n < 2 ^ 64"

lemma ids_left_room: "ids_left s (Suc n) \<Longrightarrow> id_room s"
proof -
  have m: "unat (- 1 :: u64) = 2 ^ 64 - 1" by (simp add: unsigned_minus_1_eq_mask mask_eq_exp_minus_1)
  assume "ids_left s (Suc n)"
  then have "unat (rs_next_tunnel_id s) \<noteq> unat (- 1 :: u64)" unfolding m by (simp add: ids_left_def)
  then show ?thesis by (auto simp: id_room_def)
qed

lemma ids_left_next:
  "ids_left s (Suc n) \<Longrightarrow> rs_next_tunnel_id t = rs_next_tunnel_id s \<or> rs_next_tunnel_id t = rs_next_tunnel_id s + 1 \<Longrightarrow> ids_left t n"
proof (elim disjE)
  assume l: "ids_left s (Suc n)" and "rs_next_tunnel_id t = rs_next_tunnel_id s + 1"
  moreover have "unat (rs_next_tunnel_id s + 1) = unat (rs_next_tunnel_id s) + 1"
    using l by (simp add: ids_left_def unat_word_ariths)
  ultimately show ?thesis by (simp add: ids_left_def)
qed (simp add: ids_left_def)

lemma ids_left_same: "ids_left s (Suc n) \<Longrightarrow> rs_next_tunnel_id t = rs_next_tunnel_id s \<Longrightarrow> ids_left t n"
  by (simp add: ids_left_def)

lemma accept_introduced_next:
  "rs_next_tunnel_id (accept_introduced env now s k p) = rs_next_tunnel_id s \<or>
   rs_next_tunnel_id (accept_introduced env now s k p) = rs_next_tunnel_id s + 1"
proof (cases rule: accept_introduced_cases [of env now s k p])
  case (registered t s' tx d)
  then show ?thesis by (cases "accept_try_send env tx t") (simp_all add: insert_entry_simps [OF registered(5)])
qed simp

lemma route_relayed_next:
  "rs_next_tunnel_id (route_relayed env now s k p) = rs_next_tunnel_id s \<or>
   rs_next_tunnel_id (route_relayed env now s k p) = rs_next_tunnel_id s + 1"
proof (cases rule: route_relayed_cases [of s k p env now])
  case new
  then show ?thesis using accept_introduced_next [of env now s k p] by simp
next
  case (yield e)
  then show ?thesis using accept_introduced_next [of env now "close_tunnel (stamp now s k e) k (te_id e)" k p] by simp
qed simp_all

lemma open_tunnel_next:
  "open_tunnel env now s k network = (r, t) \<Longrightarrow> rs_next_tunnel_id t = rs_next_tunnel_id s \<or> rs_next_tunnel_id t = rs_next_tunnel_id s + 1"
  by (cases rule: open_tunnel_cases [of env now s k network]) (auto simp: insert_entry_simps)

lemma local_step_ok:
  assumes "status_ok s" "ids_left s (Suc n)"
  shows "status_ok (local_step env op s) \<and> ids_left (local_step env op s) n"
proof -
  have room: "id_room s" using assms(2) by (rule ids_left_room)
  show ?thesis
  proof (cases op)
    case (LocalOpen now target network)
    obtain r t where o: "open_tunnel env now s target network = (r, t)" by (rule prod.exhaust)
    with status_ok_open [OF assms(1) room o] ids_left_next [OF assms(2) open_tunnel_next [OF o]] LocalOpen
    show ?thesis by (simp add: local_step_def)
  next
    case (LocalSend tu p)
    obtain r t where o: "tunnel_send env s tu p = (r, t)" by (rule prod.exhaust)
    with status_ok_step [OF assms(1) status_step.sent [OF o]] tunnel_send_same [OF o] assms(2) LocalSend
    show ?thesis by (simp add: local_step_def ids_left_def)
  next
    case (LocalDrop tu)
    with status_ok_step [OF assms(1) status_step.dropped, of tu] assms(2) show ?thesis
      by (simp add: local_step_def ids_left_def drop_tunnel_def)
  next
    case LocalAccept
    with status_ok_step [OF assms(1) status_step.accepting, of env] assms(2) show ?thesis
      by (simp add: local_step_def ids_left_def enable_accept_def)
  qed
qed

lemma handle_incoming_ok:
  assumes "status_ok s" "ids_left s (Suc n)" "handle_incoming env now bytes w s = (r, w', s')"
  shows "status_ok s' \<and> ids_left s' n"
proof -
  note ok = assms(1) and room = ids_left_room [OF assms(2)]
  have same: "rs_next_tunnel_id s' = rs_next_tunnel_id s \<Longrightarrow> ids_left s' n" by (rule ids_left_same [OF assms(2)])
  consider "s' = s" | k where "s' = set_connected s k" | ps where "s' = replace_known_peers s ps"
    | p where "s' = add_known_peer s p" | k where "s' = remove_known_peer s k"
    | k p where "s' = route_relayed (se_chan env) now s k p"
    using assms(3)
    by (auto simp: handle_incoming_def Let_def split: option.splits relay_message.splits if_splits prod.splits)
  then show ?thesis
  proof cases
    case (6 k p)
    then show ?thesis
      using status_ok_route [OF ok room] ids_left_next [OF assms(2) route_relayed_next] by simp
  next
    case (2 k)
    then show ?thesis using status_ok_step [OF ok status_step.connected] same by (simp add: setter_defs)
  next
    case (3 ps)
    then show ?thesis using status_ok_step [OF ok status_step.replace_peers] same by (simp add: setter_defs)
  next
    case (4 p)
    then show ?thesis using status_ok_step [OF ok status_step.add_peer] same by (simp add: setter_defs)
  next
    case (5 k)
    then show ?thesis using status_ok_step [OF ok status_step.remove_peer] same by (simp add: setter_defs)
  qed (use ok same in simp)
qed

lemma outbound_ok: "status_ok s \<Longrightarrow> status_ok (s\<lparr> rs_outbound := out \<rparr>)"
  by (rule status_ok_cong) (simp_all add: status_ok_def)

lemma serve_event_ok:
  assumes "status_ok s" "ids_left s (Suc n)" "serve_event env network_id ev w s = (r, w', s')"
  shows "status_ok s' \<and> ids_left s' n"
proof -
  have same: "s' = s \<Longrightarrow> status_ok s' \<and> ids_left s' n" using assms(1,2) by (simp add: ids_left_def)
  have out: "s' = s\<lparr> rs_outbound := out \<rparr> \<Longrightarrow> status_ok s' \<and> ids_left s' n" for out
    using outbound_ok [OF assms(1)] assms(2) by (simp add: ids_left_def)
  have frame: "handle_incoming env now b w s = (q, w'', s') \<Longrightarrow> status_ok s' \<and> ids_left s' n" for now b q w''
    by (rule handle_incoming_ok [OF assms(1,2)])
  show ?thesis
  proof (cases ev)
    case (Incoming now m)
    then show ?thesis
      using assms(3) same frame
      by (auto simp: serve_event_def continue_def split: option.splits sum.splits ws_message.splits prod.splits)
  next
    case OutboundReady
    then show ?thesis
      using assms(3) same out by (auto simp: serve_event_def continue_def split: option.splits sum.splits prod.splits)
  next
    case (Elsewhere op)
    then show ?thesis using assms(3) local_step_ok [OF assms(1,2)] by (auto simp: serve_event_def)
  qed (use assms(3) same in \<open>auto simp: serve_event_def continue_def split: sum.splits prod.splits\<close>)
qed

lemma serve_session_ok:
  "status_ok s \<Longrightarrow> ids_left s (length evs) \<Longrightarrow> status_ok (snd (snd (serve_session env network_id evs w s)))"
proof (induction evs arbitrary: w s)
  case (Cons ev evs)
  obtain r w' s' where ev: "serve_event env network_id ev w s = (r, w', s')" by (metis prod_cases3)
  with serve_event_ok [OF Cons.prems(1) _ ev, of "length evs"] Cons.prems(2) Cons.IH [of s' w'] show ?case
    by (cases r) simp_all
qed simp

lemma clear_transport_ok: "status_ok s \<Longrightarrow> status_ok (clear_transport s)"
  by (rule status_ok_step [OF _ status_step.transport_cleared])

lemma connect_once_ok:
  assumes "status_ok s" "ids_left s (length evs)"
  shows "status_ok (snd (connect_once env endpoint peer_id network_id listen_addrs evs s))"
proof -
  define s0 where "s0 = clear_transport (clear_known_peers s)"
  define s1 where "s1 = set_transport s0 peer_id network_id (se_out_new env)"
  have s0: "status_ok s0"
    unfolding s0_def by (intro clear_transport_ok status_ok_step [OF assms(1) status_step.clear_peers])
  have s1: "status_ok s1" unfolding s1_def by (rule status_ok_step [OF s0 status_step.transport])
  have "ids_left s1 (length evs)"
    using assms(2) by (simp add: ids_left_def s1_def s0_def set_transport_def clear_transport_def clear_known_peers_def)
  from serve_session_ok [OF s1 this] have served: "status_ok (snd (snd (serve_session env network_id evs w s1)))" for w .
  show ?thesis
  proof (cases "open_relay_ws env endpoint")
    case None
    then show ?thesis using s0 by (simp add: connect_once_def s0_def)
  next
    case (Some dr)
    then show ?thesis
      using s0 outbound_ok [OF s1] served clear_transport_ok [OF served]
      unfolding connect_once_def Let_def s0_def [symmetric] s1_def [symmetric]
      by (auto split: sum.splits prod.splits option.splits) (metis snd_conv)+
  qed
qed

section \<open>The reconnect schedule\<close>

fun schedule :: "nat \<Rightarrow> bool list \<Rightarrow> nat list" where
  "schedule n [] = []"
| "schedule n (clean # rest) = (let n = (if clean then 0 else n + 1) in min (5 * 2 ^ n) 300 # schedule n rest)"

lemma schedule_saturated: "6 \<le> n \<Longrightarrow> 6 \<le> m \<Longrightarrow> schedule n oks = schedule m oks"
proof (induction oks arbitrary: n m)
  case (Cons ok oks)
  have big: "min (5 * 2 ^ (k + 1)) 300 = (300 :: nat)" if "6 \<le> k" for k :: nat
  proof -
    have "(2 :: nat) ^ 6 \<le> 2 ^ k" using that by (intro power_increasing) simp_all
    then show ?thesis by simp
  qed
  show ?case using Cons.IH [of "n + 1" "m + 1"] big [OF Cons.prems(1)] big [OF Cons.prems(2)] Cons.prems by simp
qed simp

lemma schedule_saturating_inc:
  "schedule (unat f) (False # oks) = min (5 * 2 ^ unat (saturating_inc f)) 300 # schedule (unat (saturating_inc f)) oks"
proof (cases "unat f + 1 \<le> 2 ^ 32 - 1")
  case True
  then show ?thesis by (simp add: unat_saturating_inc)
next
  case False
  then have u: "unat (saturating_inc f) = 2 ^ 32 - 1" "6 \<le> unat f" by (simp_all add: unat_saturating_inc)
  have big: "min (5 * 2 ^ k) 300 = (300 :: nat)" if "6 \<le> k" for k :: nat
  proof -
    have "(2 :: nat) ^ 6 \<le> 2 ^ k" using that by (intro power_increasing) simp_all
    then show ?thesis by simp
  qed
  have k: "6 \<le> unat (saturating_inc f)" unfolding u(1) by simp
  show ?thesis using big [OF k] big [of "unat f + 1"] u(2) schedule_saturated [of "unat f + 1" "unat (saturating_inc f)" oks] k
    by simp
qed

lemma run_schedule:
  "\<exists>slept f t. run_relay_connection_with endpoint peer_id network_id listen_addrs backoff_default attempts failures s = Some (slept, f, t)
     \<and> map (unat \<circ> snd) slept = schedule (unat failures) (map (is_ok \<circ> fst) slept)"
proof (induction attempts arbitrary: failures s)
  case (Cons a attempts)
  obtain env evs where a: "a = (env, evs)" by (rule prod.exhaust)
  obtain r t where c: "connect_once env endpoint peer_id network_id listen_addrs evs (set_connecting s) = (r, t)" by (rule prod.exhaust)
  show ?case
  proof (cases r)
    case None
    with a c show ?thesis by simp
  next
    case (Some q)
    let ?f = "case q of Inr _ \<Rightarrow> 0 | Inl e \<Rightarrow> saturating_inc failures"
    let ?t = "case q of Inr _ \<Rightarrow> set_disconnected t None | Inl e \<Rightarrow> set_disconnected t (Some e)"
    obtain d where d: "backoff_secs_with ?f (base_secs backoff_default) (cap_secs backoff_default) = Some d"
        "unat d = min (5 * 2 ^ unat ?f) 300"
      using backoff_secs_value [of ?f] by (auto simp: backoff_secs_def backoff_default_def)
    obtain slept f u where IH: "run_relay_connection_with endpoint peer_id network_id listen_addrs backoff_default attempts ?f ?t = Some (slept, f, u)"
        "map (unat \<circ> snd) slept = schedule (unat ?f) (map (is_ok \<circ> fst) slept)" using Cons.IH [of ?f ?t] by blast
    have "(case q of Inr _ \<Rightarrow> (0, set_disconnected t None) | Inl e \<Rightarrow> (saturating_inc failures, set_disconnected t (Some e))) = (?f, ?t)"
      by (cases q) simp_all
    then have run: "run_relay_connection_with endpoint peer_id network_id listen_addrs backoff_default (a # attempts) failures s =
        Some ((q, d) # slept, f, u)"
      by (simp add: a c Some d(1) IH(1))
    have "map (unat \<circ> snd) ((q, d) # slept) = schedule (unat failures) (map (is_ok \<circ> fst) ((q, d) # slept))"
      using IH(2) d(2) schedule_saturating_inc [of failures] by (cases q) simp_all
    with run show ?thesis by blast
  qed
qed simp

section \<open>Properties\<close>

definition harmless :: "('c, 'd, 'o, 'w, 'io, 'stack, 'cands) session_env \<Rightarrow> bytes \<Rightarrow> bool" where
  "harmless env bytes =
    (case se_parse env bytes of Some (RegisterAck success _ _) \<Rightarrow> success | Some (RelayError code _) \<Rightarrow> \<not> relay_error_is_fatal code
     | _ \<Rightarrow> True)"

definition benign :: "('c, 'd, 'o, 'w, 'io, 'stack, 'cands) session_env \<Rightarrow> event \<Rightarrow> bool" where
  "benign env ev =
    (case ev of
       Incoming _ (Some (Inr WsClose)) \<Rightarrow> False
     | Incoming _ (Some (Inr (WsText t))) \<Rightarrow> harmless env (into_bytes t)
     | Incoming _ (Some (Inr (WsBinary b))) \<Rightarrow> harmless env b
     | Incoming _ (Some (Inr _)) \<Rightarrow> True
     | Incoming _ _ \<Rightarrow> False
     | _ \<Rightarrow> True)"

definition socket_up :: "('c, 'd, 'o, 'w, 'io, 'stack, 'cands) session_env \<Rightarrow> bool" where
  "socket_up env \<longleftrightarrow> (\<forall>w m. fst (se_ws_send env w m) = Ok ()) \<and> (\<forall>m. is_ok (se_render env m))"

lemma send_up: "socket_up env \<Longrightarrow> fst (send env w m) = Ok ()"
  by (auto simp: socket_up_def send_def is_ok_def map_err_def split: sum.splits prod.splits)
    (metis fst_conv sum.distinct(1))+

lemma send_up_cases: "socket_up env \<Longrightarrow> send env w m = (r, w') \<Longrightarrow> r = Ok ()"
  using send_up [of env w m] by simp

lemma handle_incoming_harmless:
  assumes "socket_up env" "harmless env bytes"
  shows "fst (handle_incoming env now bytes w s) = Ok ()"
  using assms(2) send_up_cases [OF assms(1)]
  by (auto simp: handle_incoming_def harmless_def Let_def split: option.splits relay_message.splits if_splits prod.splits)

lemma serve_event_benign:
  assumes "socket_up env" "benign env ev"
  shows "fst (serve_event env network_id ev w s) = None"
proof (cases ev)
  case (Incoming now f)
  show ?thesis
  proof (cases f)
    case None
    with assms(2) Incoming show ?thesis by (simp add: benign_def)
  next
    case (Some q)
    show ?thesis
    proof (cases q)
      case (Inl e)
      with assms(2) Incoming Some show ?thesis by (simp add: benign_def)
    next
      case (Inr m)
      have ws: "se_ws_send env w p = (r, w') \<Longrightarrow> r = Ok ()" for p r w' using assms(1) by (metis fst_conv socket_up_def)
      have hi: "handle_incoming env now b w s = (r, w', s') \<Longrightarrow> harmless env b \<Longrightarrow> r = Ok ()" for b r w' s'
        using handle_incoming_harmless [OF assms(1), of b now w s] by simp
      show ?thesis
        using assms(2) Incoming Some Inr
        by (cases m) (auto simp: benign_def serve_event_def continue_def split: prod.splits sum.splits dest: ws hi)
    qed
  qed
qed (use send_up_cases [OF assms(1)] in
  \<open>auto simp: serve_event_def continue_def split: prod.splits sum.splits option.splits\<close>)

text \<open>A concrete outside world: channels are queues, the socket records what was sent, every frame parses to one
  given message and every name resolves.\<close>

definition demo_env ::
  "relay_message option \<Rightarrow> (nat \<times> bytes list, nat \<times> relay_tunnel list, relay_message list, ws_message list, unit, unit, nat) session_env" where
  "demo_env msg = \<lparr> se_chan = queue_env, se_out_new = [],
     se_out_recv = (\<lambda>q. case q of [] \<Rightarrow> None | m # q \<Rightarrow> Some (m, q)), se_out_close = (\<lambda>q. q), se_parse = (\<lambda>_. msg),
     se_render = (\<lambda>m. Ok ''json''), se_ws_send = (\<lambda>w m. (Ok (), w @ [m])), se_parse_ip = (\<lambda>_. Some (IpV4 1)),
     se_lookup_host = (\<lambda>_ _. None), se_cands_new = 0, se_cands_add = (\<lambda>n _ _. n + 1), se_cands_is_empty = (\<lambda>n. n = 0),
     se_stack = (), se_dial_config = \<lparr> dc_per_attempt_timeout = 0, dc_attempt_delay = 0 \<rparr>,
     se_ip_connect = (\<lambda>_ _ _ dial. map_future (map_sum id (\<lambda>c. (c, SocketAddr (IpV4 1) 1))) (dial (SocketAddr (IpV4 1) 1))),
     se_tcp_connect = (\<lambda>_. ready (Ok ())), se_show_addr = (\<lambda>_. []), se_ws_handshake = (\<lambda>_ _. ready (Ok [])) \<rparr>"

lemma demo_up: "socket_up (demo_env msg)"
  by (simp add: socket_up_def demo_env_def)

text \<open>Only four things in an inbound frame end the session: a refused registration, a relay error that
  invalidates the reservation (codes 1, 4, 5, 6 and 7), and an answer (a pong, the DHT records asked for)
  that cannot be sent.  Frames that do not parse, per-request errors and unknown error codes never do.\<close>

theorem handle_incoming_fatal_iff:
  "(\<exists>e. fst (handle_incoming env now bytes write status) = Err e) \<longleftrightarrow>
     (\<exists>m n. se_parse env bytes = Some (RegisterAck False m n))
   \<or> (\<exists>c m. se_parse env bytes = Some (RelayError c m) \<and> c \<in> {1, 4, 5, 6, 7})
   \<or> (\<exists>ts e. se_parse env bytes = Some (Ping ts) \<and> fst (send env write (Pong ts)) = Err e)
   \<or> (\<exists>k reader e. se_parse env bytes = Some (GetDhtRecords k) \<and> rs_dht_records status = Some reader
        \<and> fst (send env write (DhtRecords (dra_records (reader k)) (dra_total_keys (reader k)) (dra_truncated (reader k)))) = Err e)"
proof (cases "se_parse env bytes")
  case None
  then show ?thesis by (simp add: handle_incoming_def)
next
  case (Some m)
  then show ?thesis
    by (cases m)
      (auto simp: handle_incoming_def relay_error_is_fatal_def FATAL_RELAY_ERROR_CODES_def Let_def
        split: option.splits prod.splits if_splits)
qed

text \<open>C7.  The reservation is held: while the socket takes what is sent, a session in which the relay neither closes
  nor breaks the socket, refuses the registration nor reports one of the five fatal codes never ends by
  itself, whatever else the relay sends and whatever the other tasks do.\<close>

theorem session_held:
  assumes "socket_up env" "list_all (benign env) evs"
  shows "fst (serve_session env network_id evs write status) = None"
  using assms(2)
proof (induction evs arbitrary: "write" status)
  case (Cons ev evs)
  obtain r w s where ev: "serve_event env network_id ev write status = (r, w, s)" by (metis prod_cases3)
  have "r = None" using serve_event_benign [OF assms(1), of ev network_id "write" status] Cons.prems ev by simp
  with Cons ev show ?case by simp
qed simp

theorem session_held_witness:
  "fst (serve_session (demo_env (Some (RelayError 3 ''PEER_NOT_FOUND''))) ''net'' [PingTick 7, Incoming 0 (Some (Inr (WsBinary [1])))] [] relay_status_new) = None"
  by (rule session_held [OF demo_up])
    (simp add: benign_def harmless_def demo_env_def relay_error_is_fatal_def FATAL_RELAY_ERROR_CODES_def)

text \<open>C23.  A hostile relay cannot grow the node's state: a whole connect-register-serve cycle, whatever the relay
  sends and whatever the other tasks do meanwhile, keeps the status invariant (bounded peers without
  repetition, one circuit per peer, at most 256 served circuits).\<close>

theorem relay_cycle_bounded:
  assumes "status_ok status" "ids_left status (length evs)"
  shows "status_ok (snd (connect_once env endpoint peer_id network_id listen_addrs evs status))"
  using assms by (rule connect_once_ok)

theorem relay_cycle_bounded_witness:
  "status_ok (snd (connect_once (demo_env (Some (Peers []))) ''ws://r'' ''me'' ''net'' [] [Incoming 0 (Some (Inr (WsBinary [])))] relay_status_new))"
proof (rule relay_cycle_bounded)
  show "status_ok relay_status_new" by (rule relay_status.inv_start [OF refl])
  show "ids_left relay_status_new (length [Incoming 0 (Some (Inr (WsBinary [])))])"
    by (simp add: ids_left_def relay_status_new_def)
qed

text \<open>C24.  Teardown: a cycle that ended left no circuit open, and no outbound sink either, except on one path: when the
  registration was sent and the first peer-list request failed to send, the sink of the dead session stays.\<close>

theorem connect_once_teardown:
  assumes "connect_once env endpoint peer_id network_id listen_addrs evs status = (Some r, t)"
  shows "rs_tunnels t = [] \<and>
    (rs_outbound t \<noteq> None \<longleftrightarrow>
      (\<exists>d w w1 e w2. open_relay_ws env endpoint = Some (d, Ok w)
         \<and> send env w (Register peer_id network_id RELAY_PROTOCOL_VERSION listen_addrs) = (Ok (), w1)
         \<and> send env w1 (GetPeers (Some network_id)) = (Err e, w2)))"
  using assms
  by (auto simp: connect_once_def Let_def clear_transport_def set_transport_def split: option.splits prod.splits sum.splits)

theorem connect_once_teardown_witness:
  "\<exists>t. connect_once (demo_env None) ''ws://r'' ''me'' ''net'' [] [Incoming 0 None] relay_status_new = (Some (Ok ()), t)
     \<and> rs_tunnels t = [] \<and> rs_outbound t = None"
proof -
  have p: "parse_relay_endpoint ''ws://r'' = Ok \<lparr> re_host = ''r'', re_port = 80 \<rparr>"
    using parse_endpoint_parts [of "''ws''" 80 "[]" "''r''" "[]" "''r''" 80] rsplit_once_char_None [of "CHR '':''" "''r''"]
    by (simp add: path_marks_def split_authority_def)
  have opened: "open_relay_ws (demo_env None) ''ws://r'' = Some (0, Ok [])"
    by (simp add: open_relay_ws_def p await_ok_eq_Ok resolve_relay_candidates_def race_relay_candidates_def demo_env_def map_future_def ready_def)
  have s: "send (demo_env None) w m = (Ok (), w @ [WsText ''json''])" for w m by (simp add: send_def demo_env_def)
  obtain t where t: "connect_once (demo_env None) ''ws://r'' ''me'' ''net'' [] [Incoming 0 None] relay_status_new = (Some (Ok ()), t)"
    by (simp add: connect_once_def opened s Let_def serve_event_def)
  from connect_once_teardown [OF t] s t show ?thesis by simp
qed

text \<open>C25.  The reconnect loop never stops and never spins: whatever the attempts do, it never panics, and the delay
  slept after each ended attempt is exactly 5 seconds after a clean close and doubles with every further
  consecutive failure up to 300 seconds, even when the 32-bit failure count saturates.\<close>

theorem reconnect_delays:
  "\<exists>slept f t. run_relay_connection endpoint peer_id network_id listen_addrs attempts status = Some (slept, f, t)
     \<and> map (unat \<circ> snd) slept = schedule 0 (map (is_ok \<circ> fst) slept)"
  using run_schedule [of endpoint peer_id network_id listen_addrs attempts 0 status] by (simp add: run_relay_connection_def)

end
