(* ===== verification/Safe_Text.thy ===== *)
theory Safe_Text imports Prelude begin

text \<open>
  Text of unknown provenance made fit for a log line (\<open>src/src/safe_text.rs\<close>).

  Text is the list of its Unicode scalar values (\<open>str::chars\<close>).  \<open>char::is_control\<close> and the escapes of
  \<open>char::escape_debug\<close> for the characters this module escapes are those of the standard library.  A
  \<open>serde_json::Error\<close> is what the module reads of it: its category, line and column.
\<close>

type_synonym uchars = "nat list"

definition lit :: "string \<Rightarrow> uchars" where
  "lit s = map of_char s"

definition MAX_SAFE_TEXT_CHARS :: nat where
  "MAX_SAFE_TEXT_CHARS = 512"

text \<open>\<open>char::is_control\<close>: general category Cc.\<close>

definition is_control :: "nat \<Rightarrow> bool" where
  [rust_std]: "is_control ch \<longleftrightarrow> ch < 0x20 \<or> 0x7F \<le> ch \<and> ch < 0xA0"

definition is_bidi_control :: "nat \<Rightarrow> bool" where
  "is_bidi_control ch \<longleftrightarrow> ch = 0x200E \<or> ch = 0x200F \<or> ch = 0x061C \<or> 0x202A \<le> ch \<and> ch \<le> 0x202E \<or> 0x2066 \<le> ch \<and> ch \<le> 0x2069"

text \<open>\<open>char::escape_debug\<close> of a character that is not printable.\<close>

definition hex_digit :: "nat \<Rightarrow> nat" where
  "hex_digit d = (if d < 10 then 48 + d else 87 + d)"

fun hex :: "nat \<Rightarrow> uchars" where
  "hex n = (if n < 16 then [hex_digit n] else hex (n div 16) @ [hex_digit (n mod 16)])"

declare hex.simps [simp del]

definition escape_debug :: "nat \<Rightarrow> uchars" where
  [rust_std]: "escape_debug ch =
    (if ch = 0 then [92, 48] else if ch = 9 then [92, 116] else if ch = 13 then [92, 114] else if ch = 10 then [92, 110]
     else [92, 117, 123] @ hex ch @ [125])"

definition truncation_mark :: uchars where
  "truncation_mark = 0x2026 # [60, 116, 114, 117, 110, 99, 97, 116, 101, 100, 62]"

fun sanitize_loop :: "nat \<Rightarrow> nat \<Rightarrow> uchars \<Rightarrow> uchars \<Rightarrow> uchars" where
  "sanitize_loop max_chars cnt out [] = out"
| "sanitize_loop max_chars cnt out (ch # rest) =
    (if cnt = max_chars then out @ truncation_mark
     else sanitize_loop max_chars (cnt + 1) (out @ (if is_control ch \<or> is_bidi_control ch then escape_debug ch else [ch])) rest)"

definition sanitize :: "uchars \<Rightarrow> nat \<Rightarrow> uchars" where
  "sanitize raw max_chars = sanitize_loop max_chars 0 [] raw"

datatype safe_text = SafeText (as_str: uchars)

definition from_static :: "uchars \<Rightarrow> safe_text" where
  "from_static literal = SafeText literal"

definition from_untrusted :: "uchars \<Rightarrow> safe_text" where
  "from_untrusted raw = SafeText (sanitize raw MAX_SAFE_TEXT_CHARS)"

datatype json_category = JsonIo | JsonSyntax | JsonData | JsonEof

record json_error =
  je_classify :: json_category
  je_line :: nat
  je_column :: nat

definition describing_json_error :: "json_error \<Rightarrow> safe_text" where
  "describing_json_error error =
    (let what = (case je_classify error of
         JsonIo \<Rightarrow> ''i/o error while reading''
       | JsonSyntax \<Rightarrow> ''syntax error: not well-formed''
       | JsonData \<Rightarrow> ''data error: well-formed but not the expected shape''
       | JsonEof \<Rightarrow> ''unexpected end of input'')
     in SafeText (lit (what @ '' (at line '' @ show_nat (je_line error) @ '', column '' @ show_nat (je_column error) @
          ''; the offending input is withheld because it is peer-supplied)'')))"

section \<open>Facts\<close>

definition dangerous :: "nat \<Rightarrow> bool" where
  "dangerous ch \<longleftrightarrow> is_control ch \<or> is_bidi_control ch"

definition clean_char :: "nat \<Rightarrow> uchars" where
  "clean_char ch = (if dangerous ch then escape_debug ch else [ch])"

lemma sanitize_loop_eq:
  "cnt \<le> max_chars \<Longrightarrow> sanitize_loop max_chars cnt out raw =
    out @ concat (map clean_char (take (max_chars - cnt) raw)) @ (if max_chars - cnt < length raw then truncation_mark else [])"
proof (induction max_chars cnt out raw rule: sanitize_loop.induct)
  case (2 max_chars cnt out ch rest)
  show ?case
  proof (cases "cnt = max_chars")
    case False
    with "2.prems" have "max_chars - cnt = Suc (max_chars - (cnt + 1))" by simp
    with 2 False show ?thesis by (simp add: clean_char_def dangerous_def)
  qed simp
qed simp

lemma sanitize_eq:
  "sanitize raw m = concat (map clean_char (take m raw)) @ (if m < length raw then truncation_mark else [])"
  by (simp add: sanitize_def sanitize_loop_eq)

lemma safe_range: "32 \<le> c \<Longrightarrow> c < 127 \<Longrightarrow> \<not> dangerous c"
  by (auto simp: dangerous_def is_control_def is_bidi_control_def)

lemma hex_digit_range: "d < 16 \<Longrightarrow> 32 \<le> hex_digit d \<and> hex_digit d < 127"
  by (simp add: hex_digit_def)

lemma hex_safe: "c \<in> set (hex n) \<Longrightarrow> 32 \<le> c \<and> c < 127"
proof (induction n rule: hex.induct)
  case (1 n)
  show ?case
  proof (cases "n < 16")
    case True
    with 1(2) hex_digit_range [of n] show ?thesis by (simp add: hex.simps [of n])
  next
    case False
    with 1 hex_digit_range [of "n mod 16"] show ?thesis by (auto simp: hex.simps [of n])
  qed
qed

lemma escape_safe: "c \<in> set (escape_debug ch) \<Longrightarrow> \<not> dangerous c"
  using hex_safe [of c ch] by (intro safe_range) (auto simp: escape_debug_def split: if_splits)

lemma clean_char_safe: "c \<in> set (clean_char ch) \<Longrightarrow> \<not> dangerous c"
  using escape_safe by (auto simp: clean_char_def split: if_splits)

lemma mark_safe: "c \<in> set truncation_mark \<Longrightarrow> \<not> dangerous c"
  by (auto simp: truncation_mark_def dangerous_def is_control_def is_bidi_control_def)

lemma sanitize_safe: "c \<in> set (sanitize raw m) \<Longrightarrow> \<not> dangerous c"
  using clean_char_safe mark_safe by (auto simp: sanitize_eq split: if_splits)

lemma length_hex: "n < 16 ^ k \<Longrightarrow> 0 < k \<Longrightarrow> length (hex n) \<le> k"
proof (induction n arbitrary: k rule: hex.induct)
  case (1 n)
  show ?case
  proof (cases "n < 16")
    case True
    with 1(3) show ?thesis by (simp add: hex.simps [of n])
  next
    case False
    obtain j where k: "k = Suc j" using 1(3) by (cases k) simp_all
    then have j: "k = Suc j" "0 < j" using 1(2) False by (cases j; simp)+
    then have "n div 16 < 16 ^ j" using 1(2) by (simp add: less_mult_imp_div_less mult.commute)
    with 1(1) [OF False _ j(2)] False j show ?thesis by (simp add: hex.simps [of n])
  qed
qed

lemma dangerous_small: "dangerous ch \<Longrightarrow> ch < 16 ^ 4"
  by (auto simp: dangerous_def is_control_def is_bidi_control_def)

lemma length_clean_char: "length (clean_char ch) \<le> 8"
proof (cases "dangerous ch")
  case True
  then show ?thesis using length_hex [OF dangerous_small [OF True]] by (simp add: clean_char_def escape_debug_def)
qed (simp add: clean_char_def)

lemma length_concat_bound: "(\<And>x. x \<in> set xs \<Longrightarrow> length x \<le> b) \<Longrightarrow> length (concat xs) \<le> b * length xs"
  by (induction xs) (auto simp: add_mono)

lemma lit_show_nat: "c \<in> set (lit (show_nat n)) \<Longrightarrow> 48 \<le> c \<and> c < 58"
proof (induction n rule: show_nat.induct)
  case (1 n)
  show ?case
  proof (cases "n < 10")
    case True
    with 1(2) show ?thesis by (simp add: show_nat.simps [of n] lit_def)
  next
    case False
    with 1 show ?thesis by (auto simp: show_nat.simps [of n] lit_def)
  qed
qed

section \<open>Properties\<close>

text \<open>Untrusted text becomes one harmless line: no control character and no bidi-formatting character survives, and
  each of the first 512 characters is kept as it is or replaced by its escape, in order.\<close>

theorem from_untrusted_neutralizes:
  "list_all (\<lambda>c. \<not> is_control c \<and> \<not> is_bidi_control c) (as_str (from_untrusted raw)) \<and>
   as_str (from_untrusted raw) =
     concat (map (\<lambda>c. if is_control c \<or> is_bidi_control c then escape_debug c else [c]) (take 512 raw))
     @ (if 512 < length raw then truncation_mark else [])"
proof -
  have "list_all (\<lambda>c. \<not> dangerous c) (sanitize raw 512)" using sanitize_safe by (auto simp: list_all_iff)
  moreover have "clean_char = (\<lambda>c. if is_control c \<or> is_bidi_control c then escape_debug c else [c])"
    by (rule ext) (simp add: clean_char_def dangerous_def)
  ultimately show ?thesis
    by (simp add: from_untrusted_def MAX_SAFE_TEXT_CHARS_def dangerous_def sanitize_eq)
qed

text \<open>The bound of the result: the escapes multiply the 512 characters by at most 8, and the truncation mark adds
  12; and the factor is attained, so the result is not bounded by 512 characters.\<close>

theorem from_untrusted_bound:
  "length (as_str (from_untrusted raw)) \<le> 8 * 512 + 12 \<and>
   length (as_str (from_untrusted (replicate 513 0x202E))) = 8 * 512 + 12"
proof
  have "length (concat (map clean_char (take 512 raw))) \<le> 8 * length (map clean_char (take 512 raw))"
    by (intro length_concat_bound) (auto simp: length_clean_char)
  also have "\<dots> \<le> 8 * 512" by simp
  finally show "length (as_str (from_untrusted raw)) \<le> 8 * 512 + 12"
    by (auto simp: from_untrusted_def MAX_SAFE_TEXT_CHARS_def sanitize_eq truncation_mark_def)
  have "hex 0x202E = [50, 48, 50, 101]" by (simp add: hex.simps hex_digit_def)
  then have "length (clean_char 0x202E) = 8"
    by (simp add: clean_char_def dangerous_def is_bidi_control_def escape_debug_def)
  moreover have "length (concat (replicate n xs)) = n * length xs" for n and xs :: uchars by (induction n) simp_all
  ultimately show "length (as_str (from_untrusted (replicate 513 0x202E))) = 8 * 512 + 12"
    by (simp add: from_untrusted_def MAX_SAFE_TEXT_CHARS_def sanitize_eq truncation_mark_def take_replicate map_replicate)
qed

text \<open>The result need not be one line for a reader that breaks lines at the Unicode line and paragraph separators:
  they are neither control nor bidi characters, so they pass through.\<close>

theorem line_separators_survive:
  "as_str (from_untrusted [97, 0x2028, 98, 0x2029, 99]) = [97, 0x2028, 98, 0x2029, 99]"
  by (simp add: from_untrusted_def MAX_SAFE_TEXT_CHARS_def sanitize_eq clean_char_def dangerous_def is_control_def is_bidi_control_def)

end
