(* ===== verification/Framing.thy ===== *)
theory Framing imports Chunk_Lens Safe_Text begin

text \<open>
  The messages of a logical stream and their framing (\<open>src/src/mux.rs\<close>): the availability and range types
  with their builders, the length-prefixed encoder and the two decoders.

  \<open>serde_json\<close> is the record \<open>json_codec\<close>: a serializer and a parser.  A byte stream to read from is what
  it still delivers and how it ends (\<open>None\<close> is end of file).  The predicates \<open>json_roundtrip\<close> and
  \<open>compact_json\<close> state what the code relies on: parsing inverts serializing, and the serializer writes
  compact JSON, so the length of a body is the sum of its parts.
\<close>

section \<open>Messages\<close>

record availability_item =
  ai_store_id :: string
  ai_root :: "string option"
  ai_retrieval_key :: "string option"

record availability_request =
  ar_items :: "availability_item list"

record availability_answer =
  aa_available :: bool
  aa_roots :: "string list option"
  aa_total_length :: "u64 option"
  aa_chunk_count :: "u64 option"
  aa_complete :: "bool option"

record availability_response =
  as_items :: "availability_answer list"

record range_request =
  rr_store_id :: string
  rr_retrieval_key :: "string option"
  rr_root :: "string option"
  rr_capsule :: bool
  rr_offset :: u64
  rr_length :: u64
  rr_skip_layout :: "bool option"

record range_frame =
  rf_offset :: u64
  rf_length :: u64
  rf_bytes :: bytes
  rf_complete :: bool
  rf_total_length :: "u64 option"
  rf_chunk_lens :: "u64 list option"
  rf_chunk_index :: "u64 option"
  rf_inclusion_proof :: "string option"
  rf_root :: "string option"
  rf_chunk_count :: "u64 option"
  rf_chunk_lens_offset :: "u64 option"

definition item_store :: "string \<Rightarrow> availability_item" where
  "item_store store_id = \<lparr> ai_store_id = store_id, ai_root = None, ai_retrieval_key = None \<rparr>"

definition item_with_root :: "availability_item \<Rightarrow> string \<Rightarrow> availability_item" where
  "item_with_root self root = self\<lparr> ai_root := Some root \<rparr>"

definition item_with_retrieval_key :: "availability_item \<Rightarrow> string \<Rightarrow> availability_item" where
  "item_with_retrieval_key self retrieval_key = self\<lparr> ai_retrieval_key := Some retrieval_key \<rparr>"

definition with_availability :: "bool \<Rightarrow> availability_answer" where
  "with_availability avail = \<lparr> aa_available = avail, aa_roots = None, aa_total_length = None, aa_chunk_count = None, aa_complete = None \<rparr>"

definition answer_available :: availability_answer where "answer_available = with_availability True"
definition answer_unavailable :: availability_answer where "answer_unavailable = with_availability False"

definition with_roots :: "availability_answer \<Rightarrow> string list \<Rightarrow> availability_answer" where
  "with_roots self roots = self\<lparr> aa_roots := Some roots \<rparr>"

definition with_total_length :: "availability_answer \<Rightarrow> u64 \<Rightarrow> availability_answer" where
  "with_total_length self total_length = self\<lparr> aa_total_length := Some total_length \<rparr>"

definition with_chunk_count :: "availability_answer \<Rightarrow> u64 \<Rightarrow> availability_answer" where
  "with_chunk_count self chunk_count = self\<lparr> aa_chunk_count := Some chunk_count \<rparr>"

definition answer_with_complete :: "availability_answer \<Rightarrow> bool \<Rightarrow> availability_answer" where
  "answer_with_complete self complete = self\<lparr> aa_complete := Some complete \<rparr>"

definition resource_or_capsule :: "string \<Rightarrow> string option \<Rightarrow> bool \<Rightarrow> u64 \<Rightarrow> u64 \<Rightarrow> range_request" where
  "resource_or_capsule store_id retrieval_key is_capsule offset len =
    \<lparr> rr_store_id = store_id, rr_retrieval_key = retrieval_key, rr_root = None, rr_capsule = is_capsule,
      rr_offset = offset, rr_length = len, rr_skip_layout = None \<rparr>"

definition range_resource :: "string \<Rightarrow> string \<Rightarrow> u64 \<Rightarrow> u64 \<Rightarrow> range_request" where
  "range_resource store_id retrieval_key offset len = resource_or_capsule store_id (Some retrieval_key) False offset len"

definition range_capsule :: "string \<Rightarrow> u64 \<Rightarrow> u64 \<Rightarrow> range_request" where
  "range_capsule store_id offset len = resource_or_capsule store_id None True offset len"

definition request_with_root :: "range_request \<Rightarrow> string \<Rightarrow> range_request" where
  "request_with_root self root = self\<lparr> rr_root := Some root \<rparr>"

definition with_skip_layout :: "range_request \<Rightarrow> bool \<Rightarrow> range_request" where
  "with_skip_layout self skip_layout = self\<lparr> rr_skip_layout := Some skip_layout \<rparr>"

definition frame_data :: "u64 \<Rightarrow> bytes \<Rightarrow> range_frame" where
  "frame_data offset bytes =
    \<lparr> rf_offset = offset, rf_length = of_nat (length bytes), rf_bytes = bytes, rf_complete = False, rf_total_length = None,
      rf_chunk_lens = None, rf_chunk_index = None, rf_inclusion_proof = None, rf_root = None, rf_chunk_count = None,
      rf_chunk_lens_offset = None \<rparr>"

definition with_complete :: "range_frame \<Rightarrow> bool \<Rightarrow> range_frame" where
  "with_complete self complete = self\<lparr> rf_complete := complete \<rparr>"

definition with_identity :: "range_frame \<Rightarrow> string \<Rightarrow> u64 \<Rightarrow> u64 \<Rightarrow> range_frame" where
  "with_identity self root total_length chunk_count =
    self\<lparr> rf_root := Some root, rf_total_length := Some total_length, rf_chunk_count := Some chunk_count \<rparr>"

definition with_chunk_lens_page :: "range_frame \<Rightarrow> u64 \<Rightarrow> u64 list \<Rightarrow> range_frame" where
  "with_chunk_lens_page self chunk_lens_offset chunk_lens =
    self\<lparr> rf_chunk_lens_offset := Some chunk_lens_offset, rf_chunk_lens := Some chunk_lens \<rparr>"

definition with_chunk_index :: "range_frame \<Rightarrow> u64 \<Rightarrow> range_frame" where
  "with_chunk_index self chunk_index = self\<lparr> rf_chunk_index := Some chunk_index \<rparr>"

definition with_inclusion_proof :: "range_frame \<Rightarrow> string \<Rightarrow> range_frame" where
  "with_inclusion_proof self inclusion_proof = self\<lparr> rf_inclusion_proof := Some inclusion_proof \<rparr>"

definition with_declared_length :: "range_frame \<Rightarrow> u64 \<Rightarrow> range_frame" where
  "with_declared_length self len = self\<lparr> rf_length := len \<rparr>"

section \<open>Framing\<close>

definition MAX_FRAMED_BODY :: nat where "MAX_FRAMED_BODY = 64 * 1024"
definition MAX_RANGE_FRAME_PAYLOAD :: nat where "MAX_RANGE_FRAME_PAYLOAD = 32 * 1024"
definition MAX_INCLUSION_PROOF_B64 :: nat where "MAX_INCLUSION_PROOF_B64 = 4096"
definition MAX_FIRST_FRAME_CHUNK_LENS :: nat where "MAX_FIRST_FRAME_CHUNK_LENS = 2486"

datatype io_error_kind = InvalidData | UnexpectedEof | BrokenPipe | OtherKind

type_synonym io_error = "io_error_kind \<times> string"

record 'a json_codec =
  to_vec :: "'a \<Rightarrow> (string, bytes) result"
  from_slice :: "bytes \<Rightarrow> (json_error, 'a) result"

type_synonym reader = "bytes \<times> io_error option"

text \<open>\<open>AsyncReadExt::read_exact\<close>.\<close>

definition read_exact :: "nat \<Rightarrow> reader \<Rightarrow> (io_error, bytes) result \<times> reader" where
  [rust_std]: "read_exact n r =
    (if n \<le> length (fst r) then (Ok (take n (fst r)), (drop n (fst r), snd r))
     else (Err (case snd r of None \<Rightarrow> (UnexpectedEof, ''early eof'') | Some e \<Rightarrow> e), ([], snd r)))"

definition encode_framed :: "'a json_codec \<Rightarrow> 'a \<Rightarrow> (io_error, bytes) result" where
  "encode_framed c value =
    (case to_vec c value of
       Inl e \<Rightarrow> Err (InvalidData, e)
     | Inr body \<Rightarrow>
         if MAX_FRAMED_BODY < length body
         then Err (InvalidData, ''framed body '' @ show_nat (length body) @ '' exceeds MAX_FRAMED_BODY '' @ show_nat MAX_FRAMED_BODY
           @ ''; split the payload on MAX_RANGE_FRAME_PAYLOAD ('' @ show_nat MAX_RANGE_FRAME_PAYLOAD @ '')'')
         else Ok (be_bytes 4 (of_nat (length body) :: u32) @ body))"

definition malformed_frame :: "json_error \<Rightarrow> io_error" where
  "malformed_frame error = (InvalidData, ''malformed frame: '' @ map char_of (as_str (describing_json_error error)))"

text \<open>The part of both decoders after the length prefix.\<close>

definition decode_body :: "'a json_codec \<Rightarrow> bytes \<Rightarrow> reader \<Rightarrow> (io_error, 'a) result \<times> reader" where
  "decode_body c len_buf r =
    (let len = unat (from_be len_buf :: u32) in
     if MAX_FRAMED_BODY < len then (Err (InvalidData, ''control message too large''), r)
     else (case read_exact len r of
         (Inl e, r) \<Rightarrow> (Err e, r)
       | (Inr body, r) \<Rightarrow> (map_err malformed_frame (from_slice c body), r)))"

definition decode_framed :: "'a json_codec \<Rightarrow> reader \<Rightarrow> (io_error, 'a) result \<times> reader" where
  "decode_framed c r =
    (case read_exact 4 r of
       (Inl e, r) \<Rightarrow> (Err e, r)
     | (Inr len_buf, r) \<Rightarrow> decode_body c len_buf r)"

definition decode_framed_opt :: "'a json_codec \<Rightarrow> reader \<Rightarrow> (io_error, 'a option) result \<times> reader" where
  "decode_framed_opt c r =
    (case read_exact 4 r of
       (Inl e, r) \<Rightarrow> if fst e = UnexpectedEof then (Ok None, r) else (Err e, r)
     | (Inr len_buf, r) \<Rightarrow> (case decode_body c len_buf r of (q, r) \<Rightarrow> (map_sum id Some q, r)))"

definition range_encode :: "range_frame json_codec \<Rightarrow> range_frame \<Rightarrow> (io_error, bytes) result" where
  "range_encode c self =
    (if MAX_RANGE_FRAME_PAYLOAD < length (rf_bytes self)
     then Err (InvalidData, ''RangeFrame payload '' @ show_nat (length (rf_bytes self)) @ '' exceeds MAX_RANGE_FRAME_PAYLOAD ''
       @ show_nat MAX_RANGE_FRAME_PAYLOAD @ ''; split the range into ceiling-sized frames'')
     else
       (case rf_inclusion_proof self of
          Some proof \<Rightarrow>
            if MAX_INCLUSION_PROOF_B64 < length proof
            then Err (InvalidData, ''RangeFrame inclusion_proof '' @ show_nat (length proof) @ '' exceeds MAX_INCLUSION_PROOF_B64 ''
              @ show_nat MAX_INCLUSION_PROOF_B64 @ ''; the resource has no conforming range stream, so answer ''
              @ ''RANGE_METADATA_UNREPRESENTABLE rather than streaming frames'')
            else encode_framed c self
        | None \<Rightarrow> encode_framed c self))"

definition range_decode :: "range_frame json_codec \<Rightarrow> reader \<Rightarrow> (io_error, range_frame option) result \<times> reader" where
  "range_decode c r = decode_framed_opt c r"

text \<open>The other three messages.\<close>

definition availability_request_encode :: "availability_request json_codec \<Rightarrow> availability_request \<Rightarrow> (io_error, bytes) result" where
  "availability_request_encode c self = encode_framed c self"

definition availability_request_decode :: "availability_request json_codec \<Rightarrow> reader \<Rightarrow> (io_error, availability_request) result \<times> reader" where
  "availability_request_decode c r = decode_framed c r"

definition availability_response_encode :: "availability_response json_codec \<Rightarrow> availability_response \<Rightarrow> (io_error, bytes) result" where
  "availability_response_encode c self = encode_framed c self"

definition availability_response_decode :: "availability_response json_codec \<Rightarrow> reader \<Rightarrow> (io_error, availability_response) result \<times> reader" where
  "availability_response_decode c r = decode_framed c r"

definition range_request_encode :: "range_request json_codec \<Rightarrow> range_request \<Rightarrow> (io_error, bytes) result" where
  "range_request_encode c self = encode_framed c self"

definition range_request_decode :: "range_request json_codec \<Rightarrow> reader \<Rightarrow> (io_error, range_request) result \<times> reader" where
  "range_request_decode c r = decode_framed c r"

section \<open>The payload field on the wire\<close>

text \<open>What the JSON parser hands the visitor of the \<open>bytes\<close> field; the elements of a sequence parse one by one.  The
  base64 engine and serde's error for any other value are arguments.\<close>

datatype json_payload = PayloadStr string | PayloadBytes bytes | PayloadSeq "(string, u8) result list" | PayloadOther

definition base64_serialize :: "(bytes \<Rightarrow> string) \<Rightarrow> bytes \<Rightarrow> json_payload" where
  "base64_serialize encode bs = PayloadStr (encode bs)"

fun visit_seq :: "bytes \<Rightarrow> (string, u8) result list \<Rightarrow> (string, bytes) result" where
  "visit_seq out [] = Ok out"
| "visit_seq out (Inl e # seq) = Err e"
| "visit_seq out (Inr b # seq) = visit_seq (out @ [b]) seq"

definition base64_deserialize :: "(string \<Rightarrow> (string, bytes) result) \<Rightarrow> string \<Rightarrow> json_payload \<Rightarrow> (string, bytes) result" where
  "base64_deserialize decode invalid_type payload =
    (case payload of
       PayloadStr v \<Rightarrow> map_err (\<lambda>e. ''range frame bytes are not valid base64: '' @ e) (decode v)
     | PayloadBytes v \<Rightarrow> Ok v
     | PayloadSeq seq \<Rightarrow> visit_seq [] seq
     | PayloadOther \<Rightarrow> Err invalid_type)"

lemma visit_seq_bytes: "visit_seq out (map Ok bs) = Ok (out @ bs)"
  by (induction bs arbitrary: out) simp_all

text \<open>The canonical form and the legacy array both give the payload back.\<close>

lemma base64_roundtrip:
  "decode (encode bs) = Ok bs \<Longrightarrow> base64_deserialize decode e (base64_serialize encode bs) = Ok bs"
  "base64_deserialize decode e (PayloadSeq (map Ok bs)) = Ok bs"
  by (simp_all add: base64_deserialize_def base64_serialize_def visit_seq_bytes)

section \<open>What is relied on\<close>

definition json_roundtrip :: "'a json_codec \<Rightarrow> bool" where
  "json_roundtrip c \<longleftrightarrow> (\<forall>v body. to_vec c v = Ok body \<longrightarrow> from_slice c body = Ok v)"

text \<open>Compact JSON of an object: braces, and per field the quoted key, a colon, the value and a comma, less the
  comma of the last field.  A string without characters to escape is its bytes in quotes, a byte vector is
  its base64 in quotes, a number is its decimal digits.\<close>

definition object_len :: "(nat \<times> nat) list \<Rightarrow> nat" where
  "object_len fs = 2 + sum_list (map (\<lambda>(key, val). key + 3 + val) fs) + (length fs - 1)"

definition number_len :: "u64 \<Rightarrow> nat" where
  "number_len w = length (show_nat (unat w))"

definition base64_len :: "nat \<Rightarrow> nat" where
  "base64_len n = 4 * ((n + 2) div 3)"

definition array_len :: "u64 list \<Rightarrow> nat" where
  "array_len ws = 2 + sum_list (map number_len ws) + (length ws - 1)"

definition opt_field :: "nat \<Rightarrow> ('a \<Rightarrow> nat) \<Rightarrow> 'a option \<Rightarrow> (nat \<times> nat) list" where
  "opt_field key val_len x = (case x of None \<Rightarrow> [] | Some v \<Rightarrow> [(key, val_len v)])"

definition frame_fields :: "range_frame \<Rightarrow> (nat \<times> nat) list" where
  "frame_fields f =
    [(length ''offset'', number_len (rf_offset f)), (length ''length'', number_len (rf_length f)),
     (length ''bytes'', base64_len (length (rf_bytes f)) + 2), (length ''complete'', if rf_complete f then 4 else 5)]
    @ opt_field (length ''total_length'') number_len (rf_total_length f)
    @ opt_field (length ''chunk_lens'') array_len (rf_chunk_lens f)
    @ opt_field (length ''chunk_index'') number_len (rf_chunk_index f)
    @ opt_field (length ''inclusion_proof'') (\<lambda>s. length s + 2) (rf_inclusion_proof f)
    @ opt_field (length ''root'') (\<lambda>s. length s + 2) (rf_root f)
    @ opt_field (length ''chunk_count'') number_len (rf_chunk_count f)
    @ opt_field (length ''chunk_lens_offset'') number_len (rf_chunk_lens_offset f)"

definition plain :: "string \<Rightarrow> bool" where
  "plain s \<longleftrightarrow> list_all (\<lambda>ch. 32 \<le> (of_char ch :: nat) \<and> ch \<noteq> CHR 0x22 \<and> ch \<noteq> CHR 0x5C) s"

definition compact_json :: "range_frame json_codec \<Rightarrow> bool" where
  "compact_json c \<longleftrightarrow> (\<forall>f. pred_option plain (rf_inclusion_proof f) \<longrightarrow> pred_option plain (rf_root f) \<longrightarrow>
     (\<exists>body. to_vec c f = Ok body \<and> length body = object_len (frame_fields f)))"

section \<open>Facts\<close>

lemma key_lengths:
  "length ''offset'' = 6" "length ''length'' = 6" "length ''bytes'' = 5" "length ''complete'' = 8" "length ''total_length'' = 12"
  "length ''chunk_lens'' = 10" "length ''chunk_index'' = 11" "length ''inclusion_proof'' = 15" "length ''root'' = 4"
  "length ''chunk_count'' = 11" "length ''chunk_lens_offset'' = 17"
  by simp_all

lemma body_len_word: "n \<le> MAX_FRAMED_BODY \<Longrightarrow> unat (of_nat n :: u32) = n"
  by (simp add: MAX_FRAMED_BODY_def unat_of_nat take_bit_nat_eq_self)

lemma encode_framed_Ok:
  "encode_framed c v = Ok out \<longleftrightarrow>
    (\<exists>body. to_vec c v = Ok body \<and> length body \<le> MAX_FRAMED_BODY \<and> out = be_bytes 4 (of_nat (length body) :: u32) @ body)"
  by (auto simp: encode_framed_def split: sum.splits)

lemma decode_body_encoded:
  assumes "length body \<le> MAX_FRAMED_BODY"
  shows "decode_body c (be_bytes 4 (of_nat (length body) :: u32)) (body @ rest, e) = (map_err malformed_frame (from_slice c body), (rest, e))"
  using assms by (simp add: decode_body_def be32.dec_enc body_len_word read_exact_def)

lemma read_exact_prefix: "read_exact (length p) (p @ q, e) = (Ok p, (q, e))"
  by (simp add: read_exact_def)

lemma read_exact_4: "read_exact 4 (be_bytes 4 (w :: u32) @ q, e) = (Ok (be_bytes 4 w), (q, e))"
  using read_exact_prefix [of "be_bytes 4 w" q e] by simp

lemma decode_encoded:
  assumes "json_roundtrip c" "encode_framed c v = Ok out"
  shows "decode_framed c (out @ rest, e) = (Ok v, (rest, e))" "decode_framed_opt c (out @ rest, e) = (Ok (Some v), (rest, e))"
  using assms
  by (auto simp: encode_framed_Ok json_roundtrip_def decode_framed_def decode_framed_opt_def read_exact_4 decode_body_encoded)

lemma length_show_nat: "n < 10 ^ k \<Longrightarrow> 0 < k \<Longrightarrow> length (show_nat n) \<le> k"
proof (induction n arbitrary: k rule: show_nat.induct)
  case (1 n)
  show ?case
  proof (cases "n < 10")
    case True
    with 1(3) show ?thesis by (simp add: show_nat.simps [of n])
  next
    case False
    obtain j where k: "k = Suc j" using 1(3) by (cases k) simp_all
    then have j: "k = Suc j" "0 < j" using 1(2) False by (cases j; simp)+
    then have "n div 10 < 10 ^ j" using 1(2) by (simp add: less_mult_imp_div_less mult.commute)
    with 1(1) [OF False _ j(2)] False j show ?thesis by (simp add: show_nat.simps [of n])
  qed
qed

lemma number_len_u64: "number_len w \<le> 20"
proof -
  have "unat w < 2 ^ 64" using unsigned_less [of w] by simp
  then have "unat w < 10 ^ 20" by (rule less_trans) simp
  then show ?thesis unfolding number_len_def by (rule length_show_nat) simp
qed

lemma array_len_bound:
  assumes "length ws \<le> n" "\<And>w. w \<in> set ws \<Longrightarrow> number_len w \<le> k" "0 < n"
  shows "array_len ws \<le> 1 + n * (k + 1)"
proof (cases ws)
  case Nil
  with assms(3) show ?thesis by (cases n) (simp_all add: array_len_def)
next
  case (Cons w ws')
  have "sum_list (map number_len ws) \<le> length ws * k"
    using assms(2) by (induction ws) (auto simp: add_mono)
  then have "array_len ws \<le> 1 + length ws * (k + 1)" using Cons by (simp add: array_len_def)
  also have "\<dots> \<le> 1 + n * (k + 1)" using assms(1) by (intro add_left_mono mult_le_mono1)
  finally show ?thesis .
qed

definition field_sum :: "(nat \<times> nat) list \<Rightarrow> nat" where
  "field_sum fs = sum_list (map (\<lambda>(key, val). key + 4 + val) fs)"

lemma field_sum_simps [simp]:
  "field_sum [] = 0" "field_sum ((k, v) # fs) = k + 4 + v + field_sum fs" "field_sum (fs @ gs) = field_sum fs + field_sum gs"
  by (simp_all add: field_sum_def)

lemma field_sum_commas: "sum_list (map (\<lambda>(key, val). key + 3 + val) fs) + length fs = field_sum fs"
  by (induction fs) auto

lemma object_len_sum: "fs \<noteq> [] \<Longrightarrow> object_len fs = 1 + field_sum fs"
  using field_sum_commas [of fs] by (cases fs) (auto simp: object_len_def)

lemma opt_field_bound: "(\<And>v. x = Some v \<Longrightarrow> val_len v \<le> b) \<Longrightarrow> field_sum (opt_field key val_len x) \<le> key + 4 + b"
  by (cases x) (auto simp: opt_field_def)

lemma base64_len_mono: "n \<le> m \<Longrightarrow> base64_len n \<le> base64_len m"
  by (simp add: base64_len_def div_le_mono)

section \<open>Properties\<close>

text \<open>C14.  What an encoder produces, a decoder at the other end accepts: for every message that encodes, both decoders
  give exactly that message back and leave the rest of the stream untouched, so any number of messages can
  follow each other on one stream.\<close>

theorem framing_roundtrip:
  assumes "json_roundtrip c" "encode_framed c v = Ok out"
  shows "decode_framed c (out @ rest, e) = (Ok v, (rest, e)) \<and> decode_framed_opt c (out @ rest, e) = (Ok (Some v), (rest, e))
    \<and> length out \<le> 4 + MAX_FRAMED_BODY"
  using decode_encoded [OF assms] assms(2) by (auto simp: encode_framed_Ok)

definition byte_codec :: "u8 json_codec" where
  "byte_codec = \<lparr> to_vec = (\<lambda>b. Ok [b]), from_slice = (\<lambda>bs. Ok (hd bs)) \<rparr>"

theorem framing_roundtrip_witness:
  "decode_framed_opt byte_codec ([0, 0, 0, 1, 7, 9], None) = (Ok (Some 7), ([9], None))"
proof -
  have c: "json_roundtrip byte_codec" by (simp add: json_roundtrip_def byte_codec_def)
  have "be_bytes 4 (1 :: u32) = [0, 0, 0, 1]" by (simp add: numeral_eq_Suc)
  then have "encode_framed byte_codec 7 = Ok [0, 0, 0, 1, 7]"
    by (simp add: encode_framed_def byte_codec_def MAX_FRAMED_BODY_def)
  from framing_roundtrip [OF c this, of "[9]" None] show ?thesis by simp
qed

text \<open>A hostile stream is bounded: whatever it delivers, a decoder reads at most 65,540 bytes of it for one message,
  and fails only with the stream's own error, the refusal of the length, or a description of the parser's
  error built from its category and position alone.\<close>

theorem decode_framed_bounded:
  "length (fst r) - length (fst (snd (decode_framed c r))) \<le> 4 + MAX_FRAMED_BODY \<and>
   (case fst (decode_framed c r) of
      Inr v \<Rightarrow> True
    | Inl err \<Rightarrow> err = (case snd r of None \<Rightarrow> (UnexpectedEof, ''early eof'') | Some e \<Rightarrow> e)
        \<or> err = (InvalidData, ''control message too large'') \<or> (\<exists>je. err = malformed_frame je))"
proof (cases "4 \<le> length (fst r)")
  case False
  then show ?thesis by (simp add: decode_framed_def read_exact_def)
next
  case True
  let ?b = "take 4 (fst r)" let ?len = "unat (from_be ?b :: u32)"
  have d: "decode_framed c r = decode_body c ?b (drop 4 (fst r), snd r)"
    using True by (simp add: decode_framed_def read_exact_def)
  consider "MAX_FRAMED_BODY < ?len" | "?len \<le> MAX_FRAMED_BODY" "?len \<le> length (fst r) - 4"
    | "?len \<le> MAX_FRAMED_BODY" "length (fst r) - 4 < ?len" by linarith
  then show ?thesis
  proof cases
    case 2
    then show ?thesis
      by (cases "from_slice c (take ?len (drop 4 (fst r)))") (auto simp: d decode_body_def Let_def read_exact_def)
  qed (auto simp: d decode_body_def Let_def read_exact_def)
qed

text \<open>\<open>Ok(None)\<close> of the streaming decoder means that fewer than four bytes were left when the stream ended: a clean
  end at a frame boundary, but equally a stream cut inside a length prefix.\<close>

theorem decode_framed_opt_end:
  "fst (decode_framed_opt c r) = Ok None \<longleftrightarrow>
     length (fst r) < 4 \<and> (case snd r of None \<Rightarrow> True | Some e \<Rightarrow> fst e = UnexpectedEof)"
proof (cases "4 \<le> length (fst r)")
  case False
  then show ?thesis by (auto simp: decode_framed_opt_def read_exact_def split: option.splits)
next
  case True
  then show ?thesis
    by (auto simp: decode_framed_opt_def read_exact_def split: prod.splits) (metis map_sum_sel sum.disc(2) sum.sel(2) option.distinct(1) map_sum.simps sumE Inr_inject Inl_Inr_False)
qed

text \<open>C36.  The guaranteed budget: a range frame whose payload, inclusion proof and layout are at most at their published
  maxima (32 KiB, 4,096 bytes, 2,486 entries of at most six digits), with a 64-digit root and any value in
  every 64-bit field, always encodes.\<close>

theorem range_frame_fits:
  assumes "compact_json c" "length (rf_bytes f) \<le> MAX_RANGE_FRAME_PAYLOAD"
    and "pred_option (\<lambda>s. plain s \<and> length s \<le> MAX_INCLUSION_PROOF_B64) (rf_inclusion_proof f)"
    and "pred_option (\<lambda>s. plain s \<and> length s \<le> 64) (rf_root f)"
    and "pred_option (\<lambda>ws. length ws \<le> MAX_FIRST_FRAME_CHUNK_LENS \<and> (\<forall>w\<in>set ws. unat w < 10 ^ 6)) (rf_chunk_lens f)"
  shows "\<exists>out. range_encode c f = Ok out"
proof -
  have num: "field_sum (opt_field key number_len x) \<le> key + 4 + 20" for key x
    by (rule opt_field_bound) (simp add: number_len_u64)
  have layout: "field_sum (opt_field 10 array_len (rf_chunk_lens f)) \<le> 10 + 4 + 17403"
  proof (rule opt_field_bound)
    fix ws assume "rf_chunk_lens f = Some ws"
    then have ws: "length ws \<le> 2486" "\<And>w. w \<in> set ws \<Longrightarrow> number_len w \<le> 6"
      using assms(5) by (auto simp: MAX_FIRST_FRAME_CHUNK_LENS_def number_len_def intro!: length_show_nat)
    from array_len_bound [OF this] show "array_len ws \<le> 17403" by simp
  qed
  have proof_len: "field_sum (opt_field 15 (\<lambda>s. length s + 2) (rf_inclusion_proof f)) \<le> 15 + 4 + 4098"
    using assms(3) by (intro opt_field_bound) (auto simp: MAX_INCLUSION_PROOF_B64_def)
  have root_len: "field_sum (opt_field 4 (\<lambda>s. length s + 2) (rf_root f)) \<le> 4 + 4 + 66"
    using assms(4) by (intro opt_field_bound) auto
  have payload: "base64_len (length (rf_bytes f)) \<le> 43692"
    using base64_len_mono [of "length (rf_bytes f)" "32 * 1024"] assms(2) by (simp add: MAX_RANGE_FRAME_PAYLOAD_def base64_len_def)
  have "frame_fields f \<noteq> []" by (simp add: frame_fields_def)
  then have "object_len (frame_fields f) \<le> MAX_FRAMED_BODY"
    using number_len_u64 [of "rf_offset f"] number_len_u64 [of "rf_length f"] payload layout proof_len root_len
      num [of 12 "rf_total_length f"] num [of 11 "rf_chunk_index f"] num [of 11 "rf_chunk_count f"] num [of 17 "rf_chunk_lens_offset f"]
    unfolding frame_fields_def key_lengths by (simp add: object_len_sum MAX_FRAMED_BODY_def)
  moreover obtain body where "to_vec c f = Ok body" "length body = object_len (frame_fields f)"
    using assms(1,3,4) unfolding compact_json_def by (metis (mono_tags, lifting) option.pred_mono_strong)
  ultimately have "\<exists>out. encode_framed c f = Ok out" by (auto simp: encode_framed_Ok)
  then show ?thesis using assms(2,3) by (auto simp: range_encode_def split: option.split)
qed

text \<open>A serializer that only has the documented length.\<close>

definition sized_codec :: "range_frame json_codec" where
  "sized_codec = \<lparr> to_vec = (\<lambda>f. Ok (replicate (object_len (frame_fields f)) 0)), from_slice = (\<lambda>_. Err \<lparr> je_classify = JsonEof, je_line = 0, je_column = 0 \<rparr>) \<rparr>"

lemma sized_codec_compact: "compact_json sized_codec"
  by (simp add: compact_json_def sized_codec_def)

theorem range_frame_fits_witness:
  "\<exists>out. range_encode sized_codec (with_chunk_lens_page (frame_data 7 (replicate 32768 0)) 0 [999999]) = Ok out"
  by (rule range_frame_fits [OF sized_codec_compact])
    (simp_all add: with_chunk_lens_page_def frame_data_def MAX_RANGE_FRAME_PAYLOAD_def MAX_FIRST_FRAME_CHUNK_LENS_def)

text \<open>The frame at all four published maxima, with \<open>n\<close> layout entries.\<close>

definition worst_frame :: "nat \<Rightarrow> range_frame" where
  "worst_frame n =
    \<lparr> rf_offset = - 1, rf_length = - 1, rf_bytes = replicate MAX_RANGE_FRAME_PAYLOAD 0, rf_complete = False,
      rf_total_length = Some (- 1), rf_chunk_lens = Some (replicate n 999999), rf_chunk_index = Some (- 1),
      rf_inclusion_proof = Some (replicate MAX_INCLUSION_PROOF_B64 CHR ''A''), rf_root = Some (replicate 64 CHR ''f''),
      rf_chunk_count = Some (- 1), rf_chunk_lens_offset = Some (- 1) \<rparr>"

lemma worst_scalar: "number_len (- 1) = 20" "number_len 999999 = 6"
proof -
  have "unat (- 1 :: u64) = 18446744073709551615" by (simp add: unsigned_minus_1_eq_mask mask_eq_exp_minus_1)
  then show "number_len (- 1) = 20" unfolding number_len_def by (simp add: show_nat.simps)
  show "number_len 999999 = 6" unfolding number_len_def by (simp add: show_nat.simps)
qed

lemma worst_frame_len:
  assumes "0 < n" shows "object_len (frame_fields (worst_frame n)) = 48134 + 7 * n"
proof -
  have "array_len (replicate n 999999) = 1 + 7 * n"
    using assms by (simp add: array_len_def sum_list_replicate worst_scalar)
  moreover have "frame_fields (worst_frame n) \<noteq> []" by (simp add: frame_fields_def)
  ultimately show ?thesis
    unfolding frame_fields_def key_lengths worst_frame_def
    by (simp add: object_len_sum opt_field_def worst_scalar base64_len_def MAX_RANGE_FRAME_PAYLOAD_def MAX_INCLUSION_PROOF_B64_def)
qed

lemma plain_replicate: "plain (replicate n CHR ''A'')" "plain (replicate n CHR ''f'')"
  by (simp_all add: plain_def list_all_iff)

text \<open>C37.  The published bound is exact: at all the maxima a first frame carries up to 2,486 six-digit entries, where the
  body fills the cap to the last byte, and one entry more is refused at the sender.\<close>

theorem first_frame_bound_exact:
  assumes "compact_json c" "0 < n"
  shows "(is_ok (range_encode c (worst_frame n)) \<longleftrightarrow> n \<le> MAX_FIRST_FRAME_CHUNK_LENS)
    \<and> object_len (frame_fields (worst_frame MAX_FIRST_FRAME_CHUNK_LENS)) = MAX_FRAMED_BODY"
proof (rule conjI)
  obtain body where body: "to_vec c (worst_frame n) = Ok body" "length body = 48134 + 7 * n"
    using assms(1) worst_frame_len [OF assms(2)] plain_replicate unfolding compact_json_def
    by (metis (no_types, lifting) option.pred_inject(2) range_frame.select_convs(8,9) worst_frame_def)
  have "range_encode c (worst_frame n) = encode_framed c (worst_frame n)"
    by (simp add: range_encode_def) (simp add: worst_frame_def)
  then show "is_ok (range_encode c (worst_frame n)) \<longleftrightarrow> n \<le> MAX_FIRST_FRAME_CHUNK_LENS"
    using body by (auto simp: encode_framed_def MAX_FRAMED_BODY_def MAX_FIRST_FRAME_CHUNK_LENS_def)
  show "object_len (frame_fields (worst_frame MAX_FIRST_FRAME_CHUNK_LENS)) = MAX_FRAMED_BODY"
    by (simp add: worst_frame_len MAX_FRAMED_BODY_def MAX_FIRST_FRAME_CHUNK_LENS_def)
qed

theorem first_frame_bound_exact_witness:
  "is_ok (range_encode sized_codec (worst_frame 2486)) \<and> \<not> is_ok (range_encode sized_codec (worst_frame 2487))"
  using first_frame_bound_exact [OF sized_codec_compact, of 2486] first_frame_bound_exact [OF sized_codec_compact, of 2487]
  by (simp add: MAX_FIRST_FRAME_CHUNK_LENS_def)

end
