(* ===== verification/Tunnel_Stream.thy ===== *)
theory Tunnel_Stream imports Glare Framing begin

text \<open>
  The byte stream over a relay tunnel (\<open>RelayTunnelStream\<close> in \<open>src/src/tunnel.rs\<close>): payloads of the tunnel
  become a stream of bytes, with the unread rest of a payload carried over to the next read.

  The inbound half of the tunnel is a channel state \<open>'c\<close> with a receive operation; the locale
  \<open>payload_source\<close> is the contract the stream relies on, interpreted on the queue channels of the relay
  status.  The poll of a read returns the bytes put into the buffer; a read that puts none is an end of file
  to the caller.
\<close>

datatype 'a poll = Pending | Ready 'a

record tunnel_stream =
  ts_tunnel :: relay_tunnel
  ts_read_carry :: bytes
  ts_read_pos :: nat

definition tunnel_stream_new :: "relay_tunnel \<Rightarrow> tunnel_stream" where
  "tunnel_stream_new tunnel = \<lparr> ts_tunnel = tunnel, ts_read_carry = [], ts_read_pos = 0 \<rparr>"

text \<open>The part of \<open>poll_read\<close> after a payload is at hand; \<open>room\<close> is \<open>buf.remaining()\<close>.\<close>

definition put_carry :: "nat \<Rightarrow> tunnel_stream \<Rightarrow> bytes \<times> tunnel_stream" where
  "put_carry room self =
    (let remaining = drop (ts_read_pos self) (ts_read_carry self);
         n = min (length remaining) room
     in (take n remaining, self\<lparr> ts_read_pos := ts_read_pos self + n \<rparr>))"

definition poll_read ::
  "('c \<Rightarrow> bytes option poll \<times> 'c) \<Rightarrow> nat \<Rightarrow> tunnel_stream \<Rightarrow> 'c \<Rightarrow> bytes poll \<times> tunnel_stream \<times> 'c" where
  "poll_read recv room self chan =
    (if length (ts_read_carry self) \<le> ts_read_pos self
     then
       (case recv chan of
          (Ready (Some payload), chan) \<Rightarrow>
            (case put_carry room (self\<lparr> ts_read_carry := payload, ts_read_pos := 0 \<rparr>) of (bs, self) \<Rightarrow> (Ready bs, self, chan))
        | (Ready None, chan) \<Rightarrow> (Ready [], self, chan)
        | (Pending, chan) \<Rightarrow> (Pending, self, chan))
     else (case put_carry room self of (bs, self) \<Rightarrow> (Ready bs, self, chan)))"

definition poll_write ::
  "('c, 'd, 'o) chan_env \<Rightarrow> ('c, 'd, 'o) relay_status \<Rightarrow> tunnel_stream \<Rightarrow> bytes \<Rightarrow>
   (io_error, nat) result poll \<times> ('c, 'd, 'o) relay_status" where
  "poll_write env status self buf =
    (let n = min (length buf) MAX_RELAY_PAYLOAD in
     (case tunnel_send env status (ts_tunnel self) (take n buf) of
        (Inr _, status) \<Rightarrow> (Ready (Ok n), status)
      | (Inl e, status) \<Rightarrow> (Ready (Err (BrokenPipe, e)), status)))"

definition poll_flush :: "(io_error, unit) result poll" where "poll_flush = Ready (Ok ())"
definition poll_shutdown :: "(io_error, unit) result poll" where "poll_shutdown = Ready (Ok ())"

text \<open>The bytes received and not yet handed to the reader, and a run of reads with the given buffer sizes.\<close>

definition unread :: "('c \<Rightarrow> bytes list) \<Rightarrow> tunnel_stream \<Rightarrow> 'c \<Rightarrow> bytes" where
  "unread queued self c = drop (ts_read_pos self) (ts_read_carry self) @ concat (queued c)"

definition read_bytes :: "bytes poll \<Rightarrow> bytes" where
  "read_bytes r = (case r of Pending \<Rightarrow> [] | Ready bs \<Rightarrow> bs)"

fun reads :: "('c \<Rightarrow> bytes option poll \<times> 'c) \<Rightarrow> nat list \<Rightarrow> tunnel_stream \<Rightarrow> 'c \<Rightarrow> bytes \<times> tunnel_stream \<times> 'c" where
  "reads recv [] self c = ([], self, c)"
| "reads recv (room # rooms) self c =
    (case poll_read recv room self c of (r, self, c) \<Rightarrow>
       (case reads recv rooms self c of (bs, rest) \<Rightarrow> (read_bytes r @ bs, rest)))"

section \<open>Interface: a source of payloads\<close>

locale payload_source =
  fixes recv :: "'c \<Rightarrow> bytes option poll \<times> 'c"
    and queued :: "'c \<Rightarrow> bytes list"
  assumes recv_payload: "recv c = (Ready (Some p), c') \<Longrightarrow> queued c = p # queued c'"
    and recv_none: "recv c = (Ready None, c') \<Longrightarrow> queued c = [] \<and> queued c' = []"
    and recv_pending: "recv c = (Pending, c') \<Longrightarrow> queued c = [] \<and> queued c' = []"
begin

lemma put_carry_unread:
  assumes "put_carry room self = (bs, self')"
  shows "unread queued self c = bs @ unread queued self' c"
proof -
  let ?d = "drop (ts_read_pos self) (ts_read_carry self)" let ?n = "min (length ?d) room"
  have "bs = take ?n ?d" "self' = self\<lparr> ts_read_pos := ts_read_pos self + ?n \<rparr>"
    using assms by (auto simp: put_carry_def Let_def)
  moreover have "drop (ts_read_pos self + ?n) (ts_read_carry self) = drop ?n ?d" by (simp add: add.commute)
  ultimately show ?thesis unfolding unread_def by (simp del: drop_drop)
qed

lemma poll_read_unread:
  assumes "poll_read recv room self c = (r, self', c')"
  shows "unread queued self c = read_bytes r @ unread queued self' c'"
proof (cases "length (ts_read_carry self) \<le> ts_read_pos self")
  case False
  then show ?thesis using assms put_carry_unread by (auto simp: poll_read_def read_bytes_def split: prod.splits)
next
  case True
  obtain q d where q: "recv c = (q, d)" by (rule prod.exhaust)
  show ?thesis
  proof (cases q)
    case Pending
    then show ?thesis using assms True q recv_pending [of c d] by (auto simp: poll_read_def unread_def read_bytes_def)
  next
    case (Ready m)
    show ?thesis
    proof (cases m)
      case None
      then show ?thesis using assms True q Ready recv_none [of c d] by (auto simp: poll_read_def unread_def read_bytes_def)
    next
      case (Some p)
      obtain bs s where b: "put_carry room (self\<lparr> ts_read_carry := p, ts_read_pos := 0 \<rparr>) = (bs, s)" by (rule prod.exhaust)
      have "unread queued self c = unread queued (self\<lparr> ts_read_carry := p, ts_read_pos := 0 \<rparr>) d"
        using recv_payload [of c p d] q Ready Some True by (simp add: unread_def)
      also have "\<dots> = bs @ unread queued s d" using put_carry_unread [OF b] by simp
      finally show ?thesis using assms True q Ready Some b by (auto simp: poll_read_def read_bytes_def)
    qed
  qed
qed

lemma reads_unread: "reads recv rooms self c = (bs, self', c') \<Longrightarrow> unread queued self c = bs @ unread queued self' c'"
proof (induction rooms arbitrary: self c bs)
  case (Cons room rooms)
  obtain r s d where p: "poll_read recv room self c = (r, s, d)" by (metis prod_cases3)
  obtain b t e where q: "reads recv rooms s d = (b, t, e)" by (metis prod_cases3)
  with Cons.prems p have "bs = read_bytes r @ b" "t = self'" "e = c'" by auto
  with poll_read_unread [OF p] Cons.IH [of s d b] q show ?case by simp
qed simp

end

text \<open>The receiving end of a queue channel; \<open>closed\<close> says whether the senders are gone.\<close>

definition queue_recv :: "bool \<Rightarrow> nat \<times> bytes list \<Rightarrow> bytes option poll \<times> (nat \<times> bytes list)" where
  "queue_recv closed c =
    (case snd c of
       [] \<Rightarrow> (if closed then (Ready None, c) else (Pending, c))
     | p # q \<Rightarrow> (Ready (Some p), (fst c, q)))"

interpretation queue: payload_source "queue_recv closed" snd
  by unfold_locales (auto simp: queue_recv_def split: list.splits if_splits)

section \<open>The way of a payload through the status\<close>

text \<open>\<open>inbound_queue s from\<close> is the queue behind the circuit of a peer.  A frame the circuit's role takes is appended
  to it when there is room, and nothing else of the circuit changes.\<close>

definition inbound_queue :: "node \<Rightarrow> string \<Rightarrow> (nat \<times> bytes list) option" where
  "inbound_queue s from = (case circuit_holder s from of None \<Rightarrow> None | Some i \<Rightarrow> rs_chans s i)"

definition takes :: "node \<Rightarrow> string \<Rightarrow> bytes \<Rightarrow> bool" where
  "takes s from p \<longleftrightarrow> admitted s from p \<and>
     (case circuit_role s from of None \<Rightarrow> False | Some Server \<Rightarrow> True | Some Client \<Rightarrow> \<not> is_tls_client_hello p)"

lemma route_taken:
  assumes "takes s from p" "inbound_queue s from = Some (cap, q)" "t = route_relayed queue_env now s from p"
  shows "inbound_queue t from = Some (cap, if length q < cap then q @ [p] else q)"
    and "circuit_holder t = circuit_holder s" "circuit_role t = circuit_role s" "rs_local_peer_id t = rs_local_peer_id s"
    "rs_outbound t = rs_outbound s" "rs_relay_seq t = rs_relay_seq s"
proof -
  obtain e where e: "circuit s from = Some e" "te_role e = Server \<or> \<not> is_tls_client_hello p"
    using assms(1) by (auto simp: takes_def circuit_role_def split: option.splits tunnel_role.splits)
  then have t: "t = deliver queue_env (stamp now s from e) (te_id e) p"
    using assms(1) unfolding assms(3) by (cases rule: route_relayed_cases [of s "from" p queue_env now]) (auto simp: takes_def)
  have chan: "rs_chans (stamp now s from e) (te_id e) = Some (cap, q)"
    using assms(2) e by (simp add: inbound_queue_def circuit_holder_def stamp_def)
  have c: "circuit t = (circuit s)(from \<mapsto> e\<lparr> te_last_activity := now \<rparr>)" by (simp add: t circuit_simps)
  with e show h: "circuit_holder t = circuit_holder s" "circuit_role t = circuit_role s"
    by (auto simp: circuit_holder_def circuit_role_def fun_eq_iff)
  have "rs_chans t (te_id e) = Some (cap, if length q < cap then q @ [p] else q)"
    using chan by (simp add: t deliver_def) (simp add: queue_env_def)
  then show "inbound_queue t from = Some (cap, if length q < cap then q @ [p] else q)"
    using e by (simp add: inbound_queue_def h(1)) (simp add: circuit_holder_def)
  show "rs_local_peer_id t = rs_local_peer_id s" "rs_outbound t = rs_outbound s" "rs_relay_seq t = rs_relay_seq s"
    by (simp_all add: t) (simp add: stamp_def)
qed

section \<open>Properties\<close>

text \<open>The stream neither loses, repeats nor reorders a byte: whatever buffers the reader offers, what a run of reads
  hands out, followed by what is still unread, is what was unread before.\<close>

theorem reads_in_order:
  "case reads (queue_recv closed) rooms self c of
     (bs, self', c') \<Rightarrow> unread snd self c = bs @ unread snd self' c'"
  using queue.reads_unread [of closed rooms self c] by (simp split: prod.split)

text \<open>An empty payload, which the untrusted relay may send at will, reads as an end of file while further payloads
  are waiting.\<close>

theorem empty_payload_reads_as_eof:
  "poll_read (queue_recv False) room (tunnel_stream_new tu) (cap, [] # p # q) = (Ready [], tunnel_stream_new tu, (cap, p # q))"
  by (simp add: poll_read_def tunnel_stream_new_def queue_recv_def put_carry_def)

text \<open>A write ships one frame: it accepts at most the payload cap, nothing only of an empty buffer, and queues exactly
  the accepted prefix, from this node to the tunnel's peer, under the next sequence number; or it reports a
  broken pipe and queues nothing.\<close>

theorem poll_write_correct:
  "case poll_write env s self buf of
     (Ready (Inr n), t) \<Rightarrow> n \<le> length buf \<and> n \<le> MAX_RELAY_PAYLOAD \<and> (n = 0 \<longleftrightarrow> buf = []) \<and>
       (\<exists>me sink sink'. rs_local_peer_id s = Some me \<and> rs_outbound s = Some sink
          \<and> out_send env sink (RelayGossipMessage me (tu_target (ts_tunnel self)) (take n buf) (rs_relay_seq s)) = Some sink'
          \<and> rs_outbound t = Some sink' \<and> rs_relay_seq t = rs_relay_seq s + 1 \<and> rs_tunnels t = rs_tunnels s)
   | (Ready (Inl e), t) \<Rightarrow> fst e = BrokenPipe \<and> rs_outbound t = rs_outbound s \<and> rs_tunnels t = rs_tunnels s
   | (Pending, t) \<Rightarrow> False"
proof -
  let ?n = "min (length buf) MAX_RELAY_PAYLOAD"
  have "(?n = 0) = (buf = [])" by (auto simp: MAX_RELAY_PAYLOAD_def min_def)
  moreover have "\<not> MAX_RELAY_PAYLOAD < length (take ?n buf)" by simp
  ultimately show ?thesis
    by (cases "rs_local_peer_id s"; cases "rs_outbound s")
      (auto simp: poll_write_def tunnel_send_def Let_def split: option.split)
qed

end
