(* ===== verification/Mux_Session.thy ===== *)
theory Mux_Session imports Framing begin

text \<open>
  The multiplexed session over one peer connection (\<open>PeerSession\<close>, \<open>ClosedHandle\<close> and \<open>drive_connection\<close> in
  \<open>src/src/mux.rs\<close>).

  yamux is the record \<open>mux_env\<close>: a connection \<open>'y\<close>, its polls, and a logical stream \<open>'st\<close> with its writes and
  what it delivers.  The driver task runs over the events its \<open>select!\<close> takes.  The closing of a session
  is a step relation of its own, because two tasks meet there: the driver publishes the flag and then notifies,
  a waiter arms and checks again.  \<open>Notify\<close> is a count of the \<open>notify_waiters\<close> calls: a \<open>Notified\<close> future
  remembers the count at its creation and is woken by any later call, polled or not.
\<close>

section \<open>The driver task\<close>

record ('y, 'st) mux_env =
  poll_new_outbound :: "'y \<Rightarrow> (string, 'st) result \<times> 'y"
  poll_close :: "'y \<Rightarrow> 'y"
  stream_write_all :: "'st \<Rightarrow> bytes \<Rightarrow> (io_error, 'st) result"
  stream_flush :: "'st \<Rightarrow> (io_error, 'st) result"
  stream_reader :: "'st \<Rightarrow> reader"

record ('y, 'st) driver =
  dr_conn :: 'y
  dr_inbound :: "'st list"
  dr_closed_flag :: bool
  dr_notified :: nat

definition INBOUND_STREAMS_CAP :: nat where "INBOUND_STREAMS_CAP = 64"

datatype 'st drive_event =
    OpenOutbound
  | CommandsClosed
  | NextInbound "(string, 'st) result option"

text \<open>One arm of the driver's \<open>select!\<close>: the reply it gives, whether the loop breaks, the state.\<close>

definition drive_event ::
  "('y, 'st) mux_env \<Rightarrow> 'st drive_event \<Rightarrow> ('y, 'st) driver \<Rightarrow> (string, 'st) result option \<times> bool \<times> ('y, 'st) driver" where
  "drive_event env ev self =
    (case ev of
       OpenOutbound \<Rightarrow> (case poll_new_outbound env (dr_conn self) of (res, conn) \<Rightarrow> (Some res, False, self\<lparr> dr_conn := conn \<rparr>))
     | CommandsClosed \<Rightarrow> (None, True, self\<lparr> dr_conn := poll_close env (dr_conn self) \<rparr>)
     | NextInbound inbound \<Rightarrow>
         (case inbound of
            Some (Inr stream) \<Rightarrow>
              (None, False, if length (dr_inbound self) < INBOUND_STREAMS_CAP then self\<lparr> dr_inbound := dr_inbound self @ [stream] \<rparr> else self)
          | Some (Inl _) \<Rightarrow> (None, True, self)
          | None \<Rightarrow> (None, True, self)))"

definition publish_closed :: "('y, 'st) driver \<Rightarrow> ('y, 'st) driver" where
  "publish_closed self =
    (let self = self\<lparr> dr_closed_flag := True \<rparr> in self\<lparr> dr_notified := dr_notified self + 1 \<rparr>)"

fun drive_connection ::
  "('y, 'st) mux_env \<Rightarrow> 'st drive_event list \<Rightarrow> ('y, 'st) driver \<Rightarrow> (string, 'st) result list \<times> ('y, 'st) driver" where
  "drive_connection env [] self = ([], self)"
| "drive_connection env (ev # evs) self =
    (case drive_event env ev self of
       (reply, True, self) \<Rightarrow> ([], publish_closed self)
     | (reply, False, self) \<Rightarrow>
         (case drive_connection env evs self of (replies, self) \<Rightarrow>
           ((case reply of None \<Rightarrow> replies | Some r \<Rightarrow> r # replies), self)))"

definition session_new :: "'y \<Rightarrow> ('y, 'st) driver" where
  "session_new conn = \<lparr> dr_conn = conn, dr_inbound = [], dr_closed_flag = False, dr_notified = 0 \<rparr>"

text \<open>A session over a byte stream, as the end that opens streams and as the end that serves them; \<open>connection\<close> is
  \<open>yamux::Connection::new\<close> with the default configuration.\<close>

datatype mux_mode = ClientMode | ServerMode

definition peer_session_client :: "('io \<Rightarrow> mux_mode \<Rightarrow> 'y) \<Rightarrow> 'io \<Rightarrow> ('y, 'st) driver" where
  "peer_session_client connection io = session_new (connection io ClientMode)"

definition peer_session_server :: "('io \<Rightarrow> mux_mode \<Rightarrow> 'y) \<Rightarrow> 'io \<Rightarrow> ('y, 'st) driver" where
  "peer_session_server connection io = session_new (connection io ServerMode)"

section \<open>The session's operations\<close>

text \<open>\<open>queued\<close> is what the driver handles between the send of the command and the command itself.\<close>

definition open_stream ::
  "('y, 'st) mux_env \<Rightarrow> 'st drive_event list \<Rightarrow> ('y, 'st) driver \<Rightarrow> (io_error, 'st) result \<times> ('y, 'st) driver" where
  "open_stream env queued self =
    (if dr_closed_flag self then (Err (OtherKind, ''mux driver closed''), self)
     else
       (case drive_connection env queued self of (_, self) \<Rightarrow>
          if dr_closed_flag self then (Err (OtherKind, ''mux driver dropped request''), self)
          else (case poll_new_outbound env (dr_conn self) of
              (res, conn) \<Rightarrow> (map_err (\<lambda>e. (OtherKind, e)) res, self\<lparr> dr_conn := conn \<rparr>))))"

definition accept_stream :: "('y, 'st) driver \<Rightarrow> 'st option \<times> ('y, 'st) driver" where
  "accept_stream self = (case dr_inbound self of [] \<Rightarrow> (None, self) | st # rest \<Rightarrow> (Some st, self\<lparr> dr_inbound := rest \<rparr>))"

definition write_preamble :: "('y, 'st) mux_env \<Rightarrow> (io_error, bytes) result \<Rightarrow> 'st \<Rightarrow> (io_error, 'st) result" where
  "write_preamble env encoded stream =
    (case encoded of
       Inl e \<Rightarrow> Err e
     | Inr bs \<Rightarrow> (case stream_write_all env stream bs of Inl e \<Rightarrow> Err e | Inr stream \<Rightarrow> stream_flush env stream))"

definition open_range_stream ::
  "('y, 'st) mux_env \<Rightarrow> range_request json_codec \<Rightarrow> 'st drive_event list \<Rightarrow> ('y, 'st) driver \<Rightarrow> range_request \<Rightarrow>
   (io_error, 'st) result \<times> ('y, 'st) driver" where
  "open_range_stream env c queued self req =
    (case open_stream env queued self of
       (Inl e, self) \<Rightarrow> (Err e, self)
     | (Inr stream, self) \<Rightarrow> (write_preamble env (encode_framed c req) stream, self))"

definition query_availability ::
  "('y, 'st) mux_env \<Rightarrow> availability_request json_codec \<Rightarrow> availability_response json_codec \<Rightarrow> 'st drive_event list \<Rightarrow>
   ('y, 'st) driver \<Rightarrow> availability_item list \<Rightarrow> (io_error, availability_response) result \<times> ('y, 'st) driver" where
  "query_availability env c d queued self items =
    (let req = \<lparr> ar_items = items \<rparr> in
     (case open_stream env queued self of
        (Inl e, self) \<Rightarrow> (Err e, self)
      | (Inr stream, self) \<Rightarrow>
          (case write_preamble env (encode_framed c req) stream of
             Inl e \<Rightarrow> (Err e, self)
           | Inr stream \<Rightarrow> (fst (decode_framed d (stream_reader env stream)), self))))"

section \<open>The close observer\<close>

datatype closer = Driving | FlagStored | Notified

datatype waiter = CheckFlag | Arm | Recheck nat | Waiting nat | Resolved

record close_state =
  flag :: bool
  notifications :: nat
  closer :: closer
  waiter :: waiter

definition is_closed :: "close_state \<Rightarrow> bool" where
  "is_closed s = flag s"

text \<open>The driver's last two statements; \<open>None\<close> when it has none left.\<close>

definition close_step :: "close_state \<Rightarrow> close_state option" where
  "close_step s =
    (case closer s of
       Driving \<Rightarrow> Some (s\<lparr> flag := True, closer := FlagStored \<rparr>)
     | FlagStored \<Rightarrow> Some (s\<lparr> notifications := notifications s + 1, closer := Notified \<rparr>)
     | Notified \<Rightarrow> None)"

text \<open>One atomic step of \<open>ClosedHandle::closed\<close>; \<open>None\<close> when it is suspended in the \<open>await\<close> or has returned.\<close>

definition wait_step :: "close_state \<Rightarrow> close_state option" where
  "wait_step s =
    (case waiter s of
       CheckFlag \<Rightarrow> Some (s\<lparr> waiter := if flag s then Resolved else Arm \<rparr>)
     | Arm \<Rightarrow> Some (s\<lparr> waiter := Recheck (notifications s) \<rparr>)
     | Recheck n \<Rightarrow> Some (s\<lparr> waiter := if flag s then Resolved else Waiting n \<rparr>)
     | Waiting n \<Rightarrow> if notifications s = n then None else Some (s\<lparr> waiter := CheckFlag \<rparr>)
     | Resolved \<Rightarrow> None)"

inductive closed_step :: "close_state \<Rightarrow> close_state \<Rightarrow> bool" where
  driver: "close_step s = Some t \<Longrightarrow> closed_step s t"
| wait: "wait_step s = Some t \<Longrightarrow> closed_step s t"

inductive_simps closed_step_iff: "closed_step s t"

definition close_start :: "close_state \<Rightarrow> bool" where
  "close_start s \<longleftrightarrow> \<not> flag s \<and> notifications s = 0 \<and> closer s = Driving \<and> waiter s = CheckFlag"

definition close_inv :: "close_state \<Rightarrow> bool" where
  "close_inv s \<longleftrightarrow>
     (flag s \<longleftrightarrow> closer s \<noteq> Driving) \<and> notifications s = (if closer s = Notified then 1 else 0) \<and>
     (\<forall>n. waiter s = Waiting n \<longrightarrow> n = 0) \<and> (waiter s = Resolved \<longrightarrow> flag s) \<and>
     (\<forall>n. waiter s = Recheck n \<longrightarrow> n \<le> notifications s)"

lemma close_inv_step: "close_inv s \<Longrightarrow> closed_step s t \<Longrightarrow> close_inv t"
  by (auto simp: closed_step_iff close_inv_def wait_step_def close_step_def split: waiter.splits closer.splits if_splits)

interpretation closing: step_invariant close_start closed_step close_inv
proof unfold_locales
  show "close_start s \<Longrightarrow> close_inv s" for s by (simp add: close_start_def close_inv_def)
qed (rule close_inv_step)

fun wait_steps :: "nat \<Rightarrow> close_state \<Rightarrow> close_state" where
  "wait_steps 0 s = s"
| "wait_steps (Suc k) s = (case wait_step s of None \<Rightarrow> s | Some t \<Rightarrow> wait_steps k t)"

section \<open>The driver and its messages\<close>

text \<open>The driver runs on exactly while its flag is clear, and it notifies exactly when it sets it.\<close>

definition driver_ok :: "('y, 'st) driver \<Rightarrow> bool" where
  "driver_ok self \<longleftrightarrow> length (dr_inbound self) \<le> INBOUND_STREAMS_CAP \<and> dr_notified self = (if dr_closed_flag self then 1 else 0)"

definition ends_driver :: "'st drive_event \<Rightarrow> bool" where
  "ends_driver ev = (case ev of CommandsClosed \<Rightarrow> True | NextInbound (Some (Inr _)) \<Rightarrow> False | NextInbound _ \<Rightarrow> True | OpenOutbound \<Rightarrow> False)"

lemma drive_event_ends:
  "drive_event env ev self = (reply, stop, self') \<Longrightarrow> stop = ends_driver ev \<and> dr_closed_flag self' = dr_closed_flag self
     \<and> dr_notified self' = dr_notified self
     \<and> (length (dr_inbound self) \<le> INBOUND_STREAMS_CAP \<longrightarrow> length (dr_inbound self') \<le> INBOUND_STREAMS_CAP)"
  by (auto simp: drive_event_def ends_driver_def split: drive_event.splits option.splits sum.splits prod.splits if_splits)

lemma drive_connection_ok:
  "driver_ok self \<Longrightarrow> \<not> dr_closed_flag self \<Longrightarrow> drive_connection env evs self = (replies, self') \<Longrightarrow>
   driver_ok self' \<and> dr_closed_flag self' = list_ex ends_driver evs"
proof (induction evs arbitrary: self replies self')
  case (Cons ev evs)
  obtain reply stop s where ev: "drive_event env ev self = (reply, stop, s)" by (metis prod_cases3)
  note e = drive_event_ends [OF ev]
  show ?case
  proof (cases stop)
    case True
    with Cons.prems ev e show ?thesis by (auto simp: driver_ok_def publish_closed_def)
  next
    case False
    obtain rs t where rec: "drive_connection env evs s = (rs, t)" by (rule prod.exhaust)
    have "driver_ok s" "\<not> dr_closed_flag s" using Cons.prems(1,2) e by (auto simp: driver_ok_def)
    from Cons.IH [OF this rec] False Cons.prems(3) ev rec e show ?thesis by simp
  qed
qed simp

section \<open>Properties\<close>

text \<open>C6.  No lost wakeup: however the driver's close interleaves with an observer, once the driver has notified, the
  observer returns after at most three more of its own steps; and it never returns before the session closed.\<close>

theorem closed_no_lost_wakeup:
  assumes "close_start s0" "closed_step\<^sup>*\<^sup>* s0 s"
  shows "(closer s = Notified \<longrightarrow> waiter (wait_steps 3 s) = Resolved) \<and> (waiter s = Resolved \<longrightarrow> is_closed s)"
proof -
  have inv: "close_inv s" using closing.inv_reachable [OF assms] .
  then have "waiter (wait_steps 3 s) = Resolved" if "closer s = Notified"
    using that by (cases "waiter s") (auto simp: close_inv_def wait_step_def numeral_3_eq_3)
  moreover have "is_closed s" if "waiter s = Resolved" using inv that by (auto simp: close_inv_def is_closed_def)
  ultimately show ?thesis by blast
qed

theorem closed_no_lost_wakeup_witness:
  "waiter (wait_steps 3 \<lparr> flag = True, notifications = 1, closer = Notified, waiter = Waiting 0 \<rparr>) = Resolved"
proof -
  let ?st = "\<lambda>f n c w. \<lparr> flag = f, notifications = n, closer = c, waiter = w \<rparr>"
  have steps: "closed_step (?st False 0 Driving CheckFlag) (?st False 0 Driving Arm)"
    "closed_step (?st False 0 Driving Arm) (?st False 0 Driving (Recheck 0))"
    "closed_step (?st False 0 Driving (Recheck 0)) (?st False 0 Driving (Waiting 0))"
    "closed_step (?st False 0 Driving (Waiting 0)) (?st True 0 FlagStored (Waiting 0))"
    "closed_step (?st True 0 FlagStored (Waiting 0)) (?st True 1 Notified (Waiting 0))"
    by (simp_all add: closed_step_iff wait_step_def close_step_def)
  have "closed_step\<^sup>*\<^sup>* (?st False 0 Driving CheckFlag) (?st True 1 Notified (Waiting 0))"
    using steps by (meson converse_rtranclp_into_rtranclp rtranclp.rtrancl_refl)
  from closed_no_lost_wakeup [OF _ this] show ?thesis by (simp add: close_start_def)
qed

text \<open>The driver of a fresh session ends exactly at the first event that ends it (the session dropped, or the
  connection closed or failed), publishes its end exactly once and then, and never queues more than 64 streams
  nobody accepted; a command after the end is refused without touching the connection.\<close>

theorem driver_lifecycle:
  "case drive_connection env evs (session_new conn) of
     (replies, self) \<Rightarrow> dr_closed_flag self = list_ex ends_driver evs
       \<and> dr_notified self = (if list_ex ends_driver evs then 1 else 0) \<and> length (dr_inbound self) \<le> 64
       \<and> open_stream env queued self = (if list_ex ends_driver evs then (Err (OtherKind, ''mux driver closed''), self) else open_stream env queued self)"
proof -
  obtain replies self where d: "drive_connection env evs (session_new conn) = (replies, self)" by (rule prod.exhaust)
  have "driver_ok (session_new conn)" "\<not> dr_closed_flag (session_new conn)" by (simp_all add: driver_ok_def session_new_def)
  from drive_connection_ok [OF this d] d show ?thesis
    by (simp add: driver_ok_def INBOUND_STREAMS_CAP_def open_stream_def)
qed

text \<open>An availability query over a live session: when the stream opens and takes the request, the peer's framed
  answer is what the caller gets, and what reaches the peer is one frame holding exactly the items asked for.\<close>

theorem query_availability_exchange:
  assumes "json_roundtrip c" "json_roundtrip d" "encode_framed c \<lparr> ar_items = items \<rparr> = Ok req" "encode_framed d answer = Ok bs"
    and "open_stream env queued self = (Ok opened, self')" "stream_write_all env opened req = Ok written" "stream_flush env written = Ok flushed"
    and "stream_reader env flushed = (bs @ rest, e)"
  shows "query_availability env c d queued self items = (Ok answer, self') \<and> decode_framed c (req, None) = (Ok \<lparr> ar_items = items \<rparr>, ([], None))"
  using decode_encoded(1) [OF assms(1,3), of "[]" None] decode_encoded(1) [OF assms(2,4), of rest e] assms(3,5-8)
  by (simp add: query_availability_def write_preamble_def)

text \<open>A connection that counts its streams; a stream records what was written and answers with a fixed frame.\<close>

definition demo_mux :: "bytes \<Rightarrow> (nat, bytes) mux_env" where
  "demo_mux answer = \<lparr> poll_new_outbound = (\<lambda>n. (Ok [], n + 1)), poll_close = (\<lambda>n. n), stream_write_all = (\<lambda>st bs. Ok (st @ bs)),
     stream_flush = (\<lambda>st. Ok st), stream_reader = (\<lambda>st. (answer, None)) \<rparr>"

definition unit_codec :: "'a \<Rightarrow> 'a json_codec" where
  "unit_codec x = \<lparr> to_vec = (\<lambda>v. if v = x then Ok [1] else Err ''unsupported''), from_slice = (\<lambda>_. Ok x) \<rparr>"

lemma unit_codec_roundtrip: "json_roundtrip (unit_codec x)"
  by (simp add: json_roundtrip_def unit_codec_def)

theorem query_availability_exchange_witness:
  "fst (query_availability (demo_mux [0, 0, 0, 1, 1]) (unit_codec \<lparr> ar_items = [item_store ''s''] \<rparr>)
     (unit_codec \<lparr> as_items = [answer_available] \<rparr>) [] (session_new 0) [item_store ''s'']) = Ok \<lparr> as_items = [answer_available] \<rparr>"
proof -
  have "be_bytes 4 (1 :: u32) = [0, 0, 0, 1]" by (simp add: numeral_eq_Suc)
  then have enc: "encode_framed (unit_codec x) x = Ok [0, 0, 0, 1, 1]" for x
    by (simp add: encode_framed_def unit_codec_def MAX_FRAMED_BODY_def)
  show ?thesis
    using query_availability_exchange [OF unit_codec_roundtrip unit_codec_roundtrip enc enc, where env = "demo_mux [0, 0, 0, 1, 1]"
      and self = "session_new 0" and queued = "[]" and opened = "[]" and rest = "[]"]
    by (simp add: demo_mux_def open_stream_def session_new_def)
qed

end
