(* ===== verification/Relay_Transport.thy ===== *)
theory Relay_Transport imports Relay_Tunnels Dialer begin

text \<open>
  The production relay data plane \<open>ReservationRelayedTransport\<close> (\<open>src/src/method/relayed.rs\<close>): tunnels opened over
  the held reservation, for the dialer and for the probe of the traversal ladder.
\<close>

record ('c, 'd, 'o) reservation_transport =
  rv_status :: "('c, 'd, 'o) relay_status"
  rv_relay_endpoint :: socket_addr

definition reservation_new :: "('c, 'd, 'o) relay_status \<Rightarrow> socket_addr \<Rightarrow> ('c, 'd, 'o) reservation_transport" where
  "reservation_new status relay_endpoint = \<lparr> rv_status = status, rv_relay_endpoint = relay_endpoint \<rparr>"

definition reservation_open_tunnel ::
  "('c, 'd, 'o) chan_env \<Rightarrow> nat \<Rightarrow> ('c, 'd, 'o) reservation_transport \<Rightarrow> string \<Rightarrow> string \<Rightarrow>
   (string, relay_tunnel) result \<times> ('c, 'd, 'o) reservation_transport" where
  "reservation_open_tunnel env now self target_peer network_id =
    (case open_tunnel env now (rv_status self) target_peer network_id of (r, status) \<Rightarrow> (r, self\<lparr> rv_status := status \<rparr>))"

text \<open>The probe of the ladder: the tunnel is dropped when the function returns.\<close>

definition open_relayed ::
  "('c, 'd, 'o) chan_env \<Rightarrow> nat \<Rightarrow> ('c, 'd, 'o) reservation_transport \<Rightarrow> string \<Rightarrow> string \<Rightarrow>
   (string, socket_addr) result \<times> ('c, 'd, 'o) reservation_transport" where
  "open_relayed env now self target_peer network_id =
    (case open_tunnel env now (rv_status self) target_peer network_id of
       (Inl e, status) \<Rightarrow> (Err e, self\<lparr> rv_status := status \<rparr>)
     | (Inr probe, status) \<Rightarrow> (Ok (rv_relay_endpoint self), self\<lparr> rv_status := drop_tunnel status probe \<rparr>))"

text \<open>The reservation as the dialer's view of a relay, at one moment.\<close>

definition reservation_dialer :: "('c, 'd, 'o) chan_env \<Rightarrow> nat \<Rightarrow> ('c, 'd, 'o) reservation_transport \<Rightarrow> relay_tunnel tunnel_dialer" where
  "reservation_dialer env now self =
    \<lparr> rd_relay_endpoint = rv_relay_endpoint self, rd_is_ready = relay_transport_ready (rv_status self),
      rd_open_dial_tunnel = (\<lambda>target network. ready (fst (reservation_open_tunnel env now self target network))) \<rparr>"

text \<open>The probe leaves no circuit behind and never displaces a live one: when it succeeds the target has no circuit
  afterwards, and had none or an idle one before; when it fails nothing changes; and it succeeds only when the
  dialer's view says the relay is ready.\<close>

theorem probe_harmless:
  "case open_relayed env now self k network of
     (Inl _, t) \<Rightarrow> t = self
   | (Inr addr, t) \<Rightarrow> addr = rv_relay_endpoint self \<and> rd_is_ready (reservation_dialer env now self)
       \<and> circuit_holder (rv_status t) = (circuit_holder (rv_status self))(k := None)
       \<and> pred_option (\<lambda>e. STALE_CIRCUIT_IDLE \<le> now - te_last_activity e) (circuit (rv_status self) k)"
proof (cases rule: open_tunnel_cases [of env now "rv_status self" k network])
  case (refused m)
  then show ?thesis by (simp add: open_relayed_def)
next
  case (opened t s)
  have reg: "register_circuit env now network Client (rv_status self) k = (tu_id t, s)"
    using opened(2) by (simp add: register_circuit_def)
  have "tu_target t = k" using insert_entry_simps(1) [OF opened(2)] by simp
  moreover have "pred_option (\<lambda>e. STALE_CIRCUIT_IDLE \<le> now - te_last_activity e) (circuit (rv_status self) k)"
    using opened(5) by (cases "circuit (rv_status self) k") auto
  ultimately show ?thesis
    using circuits.own_release [OF reg] opened(1,3) by (simp add: open_relayed_def drop_tunnel_def reservation_dialer_def)
qed

section \<open>A relayed dial on the reservation\<close>

text \<open>One bounded dial of the relayed tier with its effect on the reservation: \<open>dial_relayed\<close> opens the tunnel unless the
  target is this node, the connection's session owns it, and the tunnel is dropped with the future when the dial
  fails or its time is up.\<close>

definition relayed_attempt ::
  "bool \<Rightarrow> nat \<Rightarrow> ('node, 'bp, 'cfg, 'io, 'stack, 'cs, relay_tunnel, 's) dial_env \<Rightarrow> ('c, 'd, 'o) chan_env \<Rightarrow> nat \<Rightarrow>
   ('node, 'bp, 'stack, relay_tunnel) mtls_dialer \<Rightarrow> peer_target \<Rightarrow> socket_addr \<Rightarrow> ('c, 'd, 'o) reservation_transport \<Rightarrow>
   (method_error, 's peer_connection) result \<times> ('c, 'd, 'o) reservation_transport" where
  "relayed_attempt tie t env cenv now self peer addr rv =
    (let dialer = with_relayed_dialer self (reservation_dialer cenv now rv);
         r = snd (run_bounded tie t Relayed (mtls_dial env dialer peer (outcome_single Relayed addr))) in
     if pt_peer_id peer = node_peer_id env (md_node self) then (r, rv)
     else
       (case reservation_open_tunnel cenv now rv (peer_id_to_hex env (pt_peer_id peer)) (pt_network_id peer) of
          (Inl _, rv) \<Rightarrow> (r, rv)
        | (Inr tunnel, rv) \<Rightarrow> (r, if is_ok r then rv else rv\<lparr> rv_status := drop_tunnel (rv_status rv) tunnel \<rparr>)))"

lemma dial_relayed_opens:
  "dial_relayed env self peer outcome = Some (d, Ok conn) \<Longrightarrow>
   \<exists>rd e tunnel. md_relayed self = Some rd \<and> rd_open_dial_tunnel rd (peer_id_to_hex env (pt_peer_id peer)) (pt_network_id peer) = Some (e, Ok tunnel)"
  by (auto simp: dial_relayed_def Let_def await_ok_eq_Ok split: option.splits)

lemma relayed_attempt_Ok:
  assumes "run_bounded tie t Relayed (mtls_dial env (with_relayed_dialer self rd) peer (outcome_single Relayed addr)) = (d, Ok conn)"
  shows "pt_peer_id peer \<noteq> node_peer_id env (md_node self)
    \<and> (\<exists>e tunnel. rd_open_dial_tunnel rd (peer_id_to_hex env (pt_peer_id peer)) (pt_network_id peer) = Some (e, Ok tunnel))"
proof -
  have "\<exists>d. mtls_dial env (with_relayed_dialer self rd) peer (outcome_single Relayed addr) = Some (d, Ok conn)"
    using assms by (auto simp: run_bounded_def dest!: timeout_Some split: prod.splits option.splits)
  then show ?thesis
    by (auto simp: mtls_dial_def with_relayed_dialer_def outcome_single_def Let_def split: if_splits dest!: dial_relayed_opens)
qed


end
