(* ===== verification/Relay_Descriptor.thy ===== *)
theory Relay_Descriptor imports Traversal begin

text \<open>
  The self-signed discovery record of a relay (\<open>src/src/relay_descriptor.rs\<close>).

  The curve, the signature scheme and the hash are arguments; so is the rendering of a socket address,
  of which a property only uses that different addresses render differently.
\<close>

section \<open>The record and its signed bytes\<close>

definition DESCRIPTOR_SIG_CONTEXT :: bytes where
  "DESCRIPTOR_SIG_CONTEXT = into_bytes ''dig-nat/relay-descriptor/v1''"

record relay_descriptor =
  peer_id_spki_hash :: bytes
  bls_pub :: bytes
  rd_addresses :: "socket_addr list"
  rd_network_id :: string
  rd_did :: "string option"
  signature :: bytes

datatype relay_descriptor_error = BadBlsPubkey | BadSignature | PeerIdMismatch | DidMismatch

text \<open>A length is cast to 32 bits, which wraps.\<close>

definition length_prefix :: "nat \<Rightarrow> bytes" where
  "length_prefix n = le_bytes 4 (of_nat n :: u32)"

definition signing_bytes :: "(socket_addr \<Rightarrow> string) \<Rightarrow> relay_descriptor \<Rightarrow> bytes" where
  "signing_bytes show_addr self =
    (let out = [];
         out = out @ DESCRIPTOR_SIG_CONTEXT;
         out = out @ peer_id_spki_hash self;
         out = out @ bls_pub self;
         out = out @ length_prefix (length (rd_addresses self));
         out = foldl (\<lambda>out addr. let s = show_addr addr in out @ length_prefix (length s) @ into_bytes s) out (rd_addresses self);
         out = out @ length_prefix (length (rd_network_id self));
         out = out @ into_bytes (rd_network_id self);
         out = (case rd_did self of
             None \<Rightarrow> out @ [0]
           | Some did \<Rightarrow> out @ [1] @ length_prefix (length did) @ into_bytes did)
     in out)"

section \<open>Verification\<close>

record descriptor_crypto =
  g1_subgroup_check :: "bytes \<Rightarrow> bool"
  verify_signature :: "bytes \<Rightarrow> bytes \<Rightarrow> bytes \<Rightarrow> bool"
  sha256 :: "bytes \<Rightarrow> bytes"
  addr_to_string :: "socket_addr \<Rightarrow> string"

definition verify_relay_descriptor ::
  "descriptor_crypto \<Rightarrow> relay_descriptor \<Rightarrow> bytes option \<Rightarrow> (string \<Rightarrow> bytes option) option \<Rightarrow> (relay_descriptor_error, unit) result" where
  "verify_relay_descriptor crypto descriptor presented_spki_der did_resolver =
    (if \<not> g1_subgroup_check crypto (bls_pub descriptor) then Err BadBlsPubkey
     else if \<not> verify_signature crypto (bls_pub descriptor) (signing_bytes (addr_to_string crypto) descriptor) (signature descriptor)
     then Err BadSignature
     else if (case presented_spki_der of Some spki \<Rightarrow> sha256 crypto spki \<noteq> peer_id_spki_hash descriptor | None \<Rightarrow> False)
     then Err PeerIdMismatch
     else if (case (rd_did descriptor, did_resolver) of
         (Some did, Some resolve) \<Rightarrow> (case resolve did of Some resolved \<Rightarrow> resolved \<noteq> bls_pub descriptor | None \<Rightarrow> False)
       | _ \<Rightarrow> False)
     then Err DidMismatch
     else Ok ())"

section \<open>The signed bytes determine the record\<close>

text \<open>The fields have the sizes of their array types, and no length overflows its prefix.\<close>

definition descriptor_sized :: "(socket_addr \<Rightarrow> string) \<Rightarrow> relay_descriptor \<Rightarrow> bool" where
  "descriptor_sized show_addr d \<longleftrightarrow> length (peer_id_spki_hash d) = 32 \<and> length (bls_pub d) = 48
     \<and> length (rd_addresses d) < 2 ^ 32 \<and> list_all (\<lambda>a. length (show_addr a) < 2 ^ 32) (rd_addresses d)
     \<and> length (rd_network_id d) < 2 ^ 32 \<and> pred_option (\<lambda>s. length s < 2 ^ 32) (rd_did d)"

definition field :: "string \<Rightarrow> bytes" where
  "field s = length_prefix (length s) @ into_bytes s"

lemma length_prefix_append [simp]:
  "m < 2 ^ 32 \<Longrightarrow> n < 2 ^ 32 \<Longrightarrow> length_prefix m @ r = length_prefix n @ s \<longleftrightarrow> m = n \<and> r = s"
proof -
  assume "m < 2 ^ 32" "n < 2 ^ 32"
  then have "(of_nat m :: u32) = of_nat n \<longleftrightarrow> m = n"
    by (simp add: word_unat_eq_iff unsigned_of_nat take_bit_nat_eq_self)
  then show ?thesis by (simp add: length_prefix_def le32.enc_append_inject)
qed

lemma field_append: "length s < 2 ^ 32 \<Longrightarrow> length t < 2 ^ 32 \<Longrightarrow> field s @ r = field t @ u \<longleftrightarrow> s = t \<and> r = u"
  by (auto simp: field_def)

lemma fields_append:
  "length xs = length ys \<Longrightarrow> list_all (\<lambda>s. length s < 2 ^ 32) xs \<Longrightarrow> list_all (\<lambda>s. length s < 2 ^ 32) ys \<Longrightarrow>
   concat (map field xs) @ r = concat (map field ys) @ u \<longleftrightarrow> xs = ys \<and> r = u"
  by (induction xs ys rule: list_induct2) (auto simp: field_append)

lemma foldl_fields: "foldl (\<lambda>out addr. out @ length_prefix (length (f addr)) @ into_bytes (f addr)) out addrs =
    out @ concat (map (field \<circ> f) addrs)"
  by (induction addrs arbitrary: out) (simp_all add: field_def)

definition did_bytes :: "string option \<Rightarrow> bytes" where
  "did_bytes did = (case did of None \<Rightarrow> [0] | Some s \<Rightarrow> 1 # field s)"

lemma did_bytes_inject:
  "pred_option (\<lambda>s. length s < 2 ^ 32) x \<Longrightarrow> pred_option (\<lambda>s. length s < 2 ^ 32) y \<Longrightarrow> did_bytes x = did_bytes y \<longleftrightarrow> x = y"
  using field_append [of _ _ "[]" "[]"] by (auto simp: did_bytes_def split: option.splits)

lemma signing_bytes_fields:
  "signing_bytes f d = DESCRIPTOR_SIG_CONTEXT @ peer_id_spki_hash d @ bls_pub d @ length_prefix (length (rd_addresses d))
     @ concat (map field (map f (rd_addresses d))) @ field (rd_network_id d) @ did_bytes (rd_did d)"
  by (cases "rd_did d") (simp_all add: signing_bytes_def foldl_fields did_bytes_def field_def Let_def)

lemma verify_relay_descriptor_ok:
  "verify_relay_descriptor crypto d spki resolver = Ok () \<longleftrightarrow>
     g1_subgroup_check crypto (bls_pub d) \<and> verify_signature crypto (bls_pub d) (signing_bytes (addr_to_string crypto) d) (signature d)
   \<and> pred_option (\<lambda>s. sha256 crypto s = peer_id_spki_hash d) spki
   \<and> (\<forall>did resolve key. rd_did d = Some did \<longrightarrow> resolver = Some resolve \<longrightarrow> resolve did = Some key \<longrightarrow> key = bls_pub d)"
  by (auto simp: verify_relay_descriptor_def split: option.splits)

text \<open>An injective rendering of addresses for the witness.\<close>

fun demo_show :: "socket_addr \<Rightarrow> string" where
  "demo_show (SocketAddr (IpV4 w) p) = map (char_of \<circ> unat) (4 # be_bytes 4 w @ be_bytes 2 p)"
| "demo_show (SocketAddr (IpV6 w) p) = map (char_of \<circ> unat) (6 # be_bytes 16 w @ be_bytes 2 p)"

lemma demo_show_inj: "inj demo_show"
proof -
  have "inj (char_of \<circ> unat :: u8 \<Rightarrow> char)"
  proof (rule injI)
    fix b c :: u8 assume "(char_of \<circ> unat) b = (char_of \<circ> unat) c"
    then have "unat b mod 256 = unat c mod 256" by (metis comp_apply of_char_of)
    moreover have "unat b < 256" "unat c < 256" using unsigned_less [of b] unsigned_less [of c] by simp_all
    ultimately show "b = c" by (simp add: word_unat_eq_iff)
  qed
  then have m: "map (char_of \<circ> unat) xs = map (char_of \<circ> unat) ys \<longleftrightarrow> xs = ys" for xs ys :: bytes by (simp only: inj_map_eq_map)
  have "demo_show x = demo_show y \<Longrightarrow> x = y" for x y
    by (cases x rule: demo_show.cases; cases y rule: demo_show.cases)
      (simp_all only: demo_show.simps m, auto simp: be128.enc_append_inject be32.enc_append_inject be16.enc_inject)
  then show ?thesis by (rule injI)
qed

definition demo_descriptor :: relay_descriptor where
  "demo_descriptor = \<lparr> peer_id_spki_hash = replicate 32 1, bls_pub = replicate 48 2, rd_addresses = [SocketAddr (IpV4 7) 8],
     rd_network_id = ''net'', rd_did = Some ''did'', signature = replicate 96 3 \<rparr>"

section \<open>Properties\<close>



end
