(* ===== verification/Stun.thy ===== *)
theory Stun imports Dialer begin

text \<open>
  The walk over several STUN servers (\<open>src/src/stun.rs\<close>).  The STUN transaction itself belongs to another crate; with
  the UDP socket and the family-racing connect it is an argument.
\<close>

record ('stack, 'c, 'sock) stun_env =
  su_candidates_new :: 'c
  su_candidates_extend :: "'c \<Rightarrow> socket_addr list \<Rightarrow> 'c"
  su_default_config :: dial_config
  su_connect :: "'stack \<Rightarrow> 'c \<Rightarrow> dial_config \<Rightarrow> (socket_addr \<Rightarrow> (string, socket_addr) result future) \<Rightarrow>
      (string, socket_addr \<times> socket_addr) result future"
  su_udp_bind :: "socket_addr \<Rightarrow> (string, 'sock) result future"
  su_query :: "'sock \<Rightarrow> socket_addr \<Rightarrow> nat \<Rightarrow> (string, socket_addr) result future"
  su_show_addr :: "socket_addr \<Rightarrow> string"

definition stun_transaction ::
  "('stack, 'c, 'sock) stun_env \<Rightarrow> nat \<Rightarrow> socket_addr \<Rightarrow> (string, socket_addr) result future" where
  "stun_transaction env t stun_addr =
    (let bind = (if \<not> is_ipv4 stun_addr then SocketAddr (IpV6 0) 0 else SocketAddr (IpV4 0) 0) in
     await_ok (map_future (map_err (\<lambda>e. ''bind '' @ su_show_addr env bind @ '': '' @ e)) (su_udp_bind env bind))
       (\<lambda>socket. su_query env socket stun_addr t))"

definition discover_reflexive_address ::
  "('stack, 'c, 'sock) stun_env \<Rightarrow> socket_addr list \<Rightarrow> 'stack \<Rightarrow> nat \<Rightarrow> socket_addr option future" where
  "discover_reflexive_address env stun_servers local t =
    (if stun_servers = [] then ready None
     else
       let candidates = su_candidates_extend env (su_candidates_new env) stun_servers;
           config = (su_default_config env)\<lparr> dc_per_attempt_timeout := t \<rparr> in
       map_future (\<lambda>winner. case winner of Inr (conn, _) \<Rightarrow> Some conn | Inl _ \<Rightarrow> None)
         (su_connect env local candidates config (stun_transaction env t)))"

text \<open>The contract of the racing connect: what it returns is what the closure returned on an offered candidate.\<close>

definition racer_honest :: "('stack, 'c, 'sock) stun_env \<Rightarrow> ('c \<Rightarrow> socket_addr set) \<Rightarrow> bool" where
  "racer_honest env members \<longleftrightarrow> members (su_candidates_new env) = {}
     \<and> (\<forall>c addrs. members (su_candidates_extend env c addrs) \<subseteq> members c \<union> set addrs)
     \<and> (\<forall>local c config f d x a. su_connect env local c config f = Some (d, Ok (x, a)) \<longrightarrow> a \<in> members c \<and> (\<exists>d'. f a = Some (d', Ok x)))"

text \<open>Every address it reports was answered by one of the given servers, over a socket of that server's own family.\<close>

theorem reflexive_address_answered:
  assumes "racer_honest env members" "discover_reflexive_address env servers local t = Some (d, Some addr)"
  shows "\<exists>server \<in> set servers. \<exists>socket d1 d2.
    su_udp_bind env (if is_ipv4 server then SocketAddr (IpV4 0) 0 else SocketAddr (IpV6 0) 0) = Some (d1, Ok socket)
    \<and> su_query env socket server t = Some (d2, Ok addr)"
proof -
  let ?c = "su_candidates_extend env (su_candidates_new env) servers"
  let ?r = "su_connect env local ?c ((su_default_config env)\<lparr> dc_per_attempt_timeout := t \<rparr>) (stun_transaction env t)"
  from assms(2) obtain r where r: "?r = Some (d, r)" "(case r of Inr (conn, _) \<Rightarrow> Some conn | Inl _ \<Rightarrow> None) = Some addr"
    by (auto simp: discover_reflexive_address_def Let_def split: if_splits)
  then obtain a where won: "?r = Some (d, Ok (addr, a))" by (cases r) auto
  have "a \<in> members ?c" "\<exists>d'. stun_transaction env t a = Some (d', Ok addr)"
    using assms(1) won unfolding racer_honest_def by blast+
  moreover have "members ?c \<subseteq> set servers" using assms(1) unfolding racer_honest_def by blast
  ultimately show ?thesis by (fastforce simp: stun_transaction_def await_ok_eq_Ok Let_def split: if_splits)
qed

end
