(* ===== verification/Fast_Transport.thy ===== *)
theory Fast_Transport imports Traversal Mux_Session begin

text \<open>
  The transports under a \<open>FastPeerConnection\<close> (\<open>src/src/fast_connect.rs\<close>): slots, streams, the promotion gate,
  the background guard and the drain of a swapped-out slot.

  An \<open>Arc<TransportSlot>\<close> is the number of a slot: \<open>fc_slots\<close> lists every slot ever made, and who holds it is
  explicit: the active pointer, the \<open>open_stream\<close> calls between their load and their stream, the live streams
  and the drain tasks.  A slot none of them holds has been dropped (\<open>released\<close>), which is what frees the
  tunnel under it.  The session of a slot is the \<open>driver\<close> of \<open>Mux_Session\<close>.  A dial is a timed future; an
  establisher gives the future of its \<open>k\<close>-th call.
\<close>

section \<open>Slots\<close>

record ('y, 'st) transport_slot =
  sl_session :: "('y, 'st) driver"
  sl_method :: traversal_kind
  sl_remote_addr :: socket_addr
  sl_peer_bls_pub :: "bytes option"
  sl_outstanding :: u64

definition from_conn :: "('y, 'st) driver peer_connection \<Rightarrow> ('y, 'st) transport_slot" where
  "from_conn conn = \<lparr> sl_session = pc_session conn, sl_method = pc_method conn, sl_remote_addr = pc_remote_addr conn,
     sl_peer_bls_pub = pc_peer_bls_pub conn, sl_outstanding = 0 \<rparr>"

record 'st fast_peer_stream =
  fs_inner :: 'st
  fs_slot :: nat

text \<open>The connection with the tasks that hold its slots.  \<open>fc_watch\<close> and \<open>fc_receivers\<close> are the watch channel.\<close>

record ('y, 'st) fast_peer_connection =
  fc_peer_id :: peer_id
  fc_slots :: "('y, 'st) transport_slot list"
  fc_active :: nat
  fc_watch :: traversal_kind
  fc_receivers :: nat
  fc_opening :: "nat list"
  fc_streams :: "(nat \<times> 'st fast_peer_stream) list"
  fc_next_stream :: nat
  fc_draining :: "nat list"

definition active_slot :: "('y, 'st) fast_peer_connection \<Rightarrow> ('y, 'st) transport_slot" where
  "active_slot self = fc_slots self ! fc_active self"

definition current_method :: "('y, 'st) fast_peer_connection \<Rightarrow> traversal_kind" where
  "current_method self = sl_method (active_slot self)"

definition remote_addr :: "('y, 'st) fast_peer_connection \<Rightarrow> socket_addr" where
  "remote_addr self = sl_remote_addr (active_slot self)"

text \<open>\<open>subscribe\<close> gives a receiver, which sees the channel's value at once.\<close>

definition subscribe :: "('y, 'st) fast_peer_connection \<Rightarrow> traversal_kind \<times> ('y, 'st) fast_peer_connection" where
  "subscribe self = (fc_watch self, self\<lparr> fc_receivers := fc_receivers self + 1 \<rparr>)"

definition unsubscribe :: "('y, 'st) fast_peer_connection \<Rightarrow> ('y, 'st) fast_peer_connection" where
  "unsubscribe self = self\<lparr> fc_receivers := fc_receivers self - 1 \<rparr>"

text \<open>\<open>watch::Sender::send\<close>: without a receiver it fails and keeps the old value, and the code ignores that.\<close>

definition events_send :: "traversal_kind \<Rightarrow> ('y, 'st) fast_peer_connection \<Rightarrow> ('y, 'st) fast_peer_connection" where
  "events_send kind self = (if fc_receivers self = 0 then self else self\<lparr> fc_watch := kind \<rparr>)"

text \<open>\<open>active.store(slot)\<close> with a fresh slot, then the notification.\<close>

definition swap_to :: "('y, 'st) driver peer_connection \<Rightarrow> ('y, 'st) fast_peer_connection \<Rightarrow> ('y, 'st) fast_peer_connection" where
  "swap_to conn self =
    (let slot = from_conn conn; method = sl_method slot;
         self = self\<lparr> fc_slots := fc_slots self @ [slot], fc_active := length (fc_slots self) \<rparr>
     in events_send method self)"

definition fast_build :: "peer_id \<Rightarrow> ('y, 'st) driver peer_connection \<Rightarrow> ('y, 'st) fast_peer_connection" where
  "fast_build peer_id initial =
    (let slot = from_conn initial in
     \<lparr> fc_peer_id = peer_id, fc_slots = [slot], fc_active = 0, fc_watch = sl_method slot, fc_receivers = 0,
       fc_opening = [], fc_streams = [], fc_next_stream = 0, fc_draining = [] \<rparr>)"

section \<open>Streams\<close>

text \<open>\<open>open_stream\<close> in its two atomic parts: the load of the active slot, and, after the session answered,
  the count and the stream.\<close>

definition open_begin :: "('y, 'st) fast_peer_connection \<Rightarrow> ('y, 'st) fast_peer_connection" where
  "open_begin self = self\<lparr> fc_opening := fc_active self # fc_opening self \<rparr>"

definition open_finish ::
  "('y, 'st) mux_env \<Rightarrow> 'st drive_event list \<Rightarrow> nat \<Rightarrow> ('y, 'st) fast_peer_connection \<Rightarrow>
   (io_error, nat) result \<times> ('y, 'st) fast_peer_connection" where
  "open_finish env queued k self =
    (let slot = fc_slots self ! k; self = self\<lparr> fc_opening := remove1 k (fc_opening self) \<rparr> in
     (case open_stream env queued (sl_session slot) of
        (Inl e, session) \<Rightarrow> (Err e, self\<lparr> fc_slots := (fc_slots self)[k := slot\<lparr> sl_session := session \<rparr>] \<rparr>)
      | (Inr stream, session) \<Rightarrow>
          (Ok (fc_next_stream self),
           self\<lparr> fc_slots := (fc_slots self)[k := slot\<lparr> sl_session := session, sl_outstanding := sl_outstanding slot + 1 \<rparr>],
                 fc_streams := (fc_next_stream self, \<lparr> fs_inner = stream, fs_slot = k \<rparr>) # fc_streams self,
                 fc_next_stream := fc_next_stream self + 1 \<rparr>)))"

definition fast_open_stream where
  "fast_open_stream env queued self = open_finish env queued (fc_active self) (open_begin self)"

text \<open>\<open>Drop\<close> of a \<open>FastPeerStream\<close>: the count of its slot goes down and the slot's handle is let go (the
  notification it may send is a step of the drain task's relation).\<close>

definition drop_stream :: "nat \<Rightarrow> ('y, 'st) fast_peer_connection \<Rightarrow> ('y, 'st) fast_peer_connection" where
  "drop_stream i self =
    (case map_of (fc_streams self) i of
       None \<Rightarrow> self
     | Some stream \<Rightarrow>
         let k = fs_slot stream; slot = fc_slots self ! k in
         self\<lparr> fc_slots := (fc_slots self)[k := slot\<lparr> sl_outstanding := sl_outstanding slot - 1 \<rparr>],
               fc_streams := AList.delete i (fc_streams self) \<rparr>)"

text \<open>\<open>AsyncRead\<close> and \<open>AsyncWrite\<close> of a \<open>FastPeerStream\<close>: each poll is the inner stream's, an argument here.\<close>

definition on_inner :: "('st \<Rightarrow> 'r \<times> 'st) \<Rightarrow> 'st fast_peer_stream \<Rightarrow> 'r \<times> 'st fast_peer_stream" where
  "on_inner poll self = (let (r, inner) = poll (fs_inner self) in (r, self\<lparr> fs_inner := inner \<rparr>))"

definition fast_poll_read where
  "fast_poll_read inner_poll_read self buf = on_inner (\<lambda>inner. inner_poll_read inner buf) self"

definition fast_poll_write where
  "fast_poll_write inner_poll_write self buf = on_inner (\<lambda>inner. inner_poll_write inner buf) self"

definition fast_poll_flush where
  "fast_poll_flush inner_poll_flush self = on_inner inner_poll_flush self"

definition fast_poll_shutdown where
  "fast_poll_shutdown inner_poll_shutdown self = on_inner inner_poll_shutdown self"

lemmas fast_polls = fast_poll_read_def fast_poll_write_def fast_poll_flush_def fast_poll_shutdown_def

lemma on_inner_slot: "\<exists>x. snd (on_inner poll self) = self\<lparr> fs_inner := x \<rparr>"
  by (auto simp: on_inner_def split: prod.split)

text \<open>The two request helpers; an error on the way drops the stream, and so does the end of the query.\<close>

definition fast_request ::
  "('y, 'st) mux_env \<Rightarrow> 'st drive_event list \<Rightarrow> (io_error, bytes) result \<Rightarrow> ('y, 'st) fast_peer_connection \<Rightarrow>
   (io_error, nat \<times> 'st) result \<times> ('y, 'st) fast_peer_connection" where
  "fast_request env queued encoded self =
    (case fast_open_stream env queued self of
       (Inl e, self) \<Rightarrow> (Err e, self)
     | (Inr i, self) \<Rightarrow>
         (case write_preamble env encoded (fs_inner (the (map_of (fc_streams self) i))) of
            Inl e \<Rightarrow> (Err e, drop_stream i self)
          | Inr stream \<Rightarrow> (Ok (i, stream), self)))"

definition fast_open_range_stream where
  "fast_open_range_stream env c queued self req = fast_request env queued (encode_framed c req) self"

definition fast_query_availability where
  "fast_query_availability env c d queued self items =
    (case fast_request env queued (encode_framed c \<lparr> ar_items = items \<rparr>) self of
       (Inl e, self) \<Rightarrow> (Err e, self)
     | (Inr (i, stream), self) \<Rightarrow> (fst (decode_framed d (stream_reader env stream)), drop_stream i self))"

section \<open>A plain connection\<close>

text \<open>The operations of a \<open>PeerConnection\<close> (\<open>src/src/peer.rs\<close>) are those of its session.\<close>

definition on_session ::
  "(('y, 'st) driver \<Rightarrow> 'r \<times> ('y, 'st) driver) \<Rightarrow> ('y, 'st) driver peer_connection \<Rightarrow> 'r \<times> ('y, 'st) driver peer_connection" where
  "on_session operation self = (let (r, session) = operation (pc_session self) in (r, self\<lparr> pc_session := session \<rparr>))"

definition conn_open_stream where
  "conn_open_stream env queued self = on_session (open_stream env queued) self"

definition conn_open_range_stream where
  "conn_open_range_stream env c queued self req = on_session (\<lambda>session. open_range_stream env c queued session req) self"

definition conn_query_availability where
  "conn_query_availability env c d queued self items = on_session (\<lambda>session. query_availability env c d queued session items) self"

section \<open>The promotion gate\<close>

text \<open>What the gate meets: yamux under the direct session, the codecs, when the probe answers (\<open>None\<close>: never) and
  how a tie with its timer falls.\<close>

record ('y, 'st) probe_env =
  pe_mux :: "('y, 'st) mux_env"
  pe_request :: "availability_request json_codec"
  pe_response :: "availability_response json_codec"
  pe_queued :: "'st drive_event list"
  pe_delay :: "nat option"
  pe_tie :: bool

definition probe ::
  "('y, 'st) probe_env \<Rightarrow> ('y, 'st) driver peer_connection \<Rightarrow>
   ((io_error, availability_response) result \<times> ('y, 'st) driver peer_connection) future" where
  "probe env conn =
    map_option (\<lambda>t. (t, conn_query_availability (pe_mux env) (pe_request env) (pe_response env) (pe_queued env) conn [])) (pe_delay env)"

lemmas probe_defs = probe_def conn_query_availability_def on_session_def

definition try_promote ::
  "('y, 'st) probe_env \<Rightarrow> peer_id \<Rightarrow> nat \<Rightarrow> ('y, 'st) driver peer_connection \<Rightarrow> ('y, 'st) fast_peer_connection \<Rightarrow>
   nat \<times> ('y, 'st) fast_peer_connection" where
  "try_promote env peer_id probe_timeout direct_conn self =
    (let relayed_slot = active_slot self in
     if pc_peer_id direct_conn \<noteq> peer_id \<or> pc_peer_bls_pub direct_conn \<noteq> sl_peer_bls_pub relayed_slot then (0, self)
     else
       (case timeout (pe_tie env) probe_timeout (probe env direct_conn) of
          (t, Some (Inr _, direct_conn)) \<Rightarrow>
            (t, (swap_to direct_conn self)\<lparr> fc_draining := fc_active self # fc_draining self \<rparr>)
        | (t, Some (Inl _, direct_conn)) \<Rightarrow> (t, self)
        | (t, None) \<Rightarrow> (t, self)))"

section \<open>The guard\<close>

type_synonym ('y, 'st) dial_future = "(nat_error, ('y, 'st) driver peer_connection) result future"
type_synonym ('y, 'st) establisher = "nat \<Rightarrow> ('y, 'st) dial_future"

record ('y, 'st) guard_plan =
  promote_from :: "('y, 'st) dial_future option"
  fallback :: "('y, 'st) establisher option"

definition guard_plan_none :: "('y, 'st) guard_plan" where
  "guard_plan_none = \<lparr> promote_from = None, fallback = None \<rparr>"

definition fallback_only :: "('y, 'st) establisher option \<Rightarrow> ('y, 'st) guard_plan" where
  "fallback_only f = \<lparr> promote_from = None, fallback = f \<rparr>"

definition FALLBACK_BACKOFF_BASE :: nat where "FALLBACK_BACKOFF_BASE = 50"
definition FALLBACK_BACKOFF_CAP :: nat where "FALLBACK_BACKOFF_CAP = 5000"
definition FALLBACK_STABILITY :: nat where "FALLBACK_STABILITY = 10000"

definition fallback_backoff :: "u32 \<Rightarrow> nat \<Rightarrow> nat \<Rightarrow> nat may_panic" where
  "fallback_backoff rapid_deaths base cap =
    (if rapid_deaths = 0 then Some 0
     else
       let base_ms = (of_nat base :: u64);
           shifted = (case checked_shl base_ms (unat (rapid_deaths - 1)) of Some w \<Rightarrow> w | None \<Rightarrow> - 1)
       in ord_clamp base cap (unat shifted))"

text \<open>Phase 2 over the lifetimes of the watched sessions, each up to its close; the log holds the lifetime and
  the wait before each re-dial.  \<open>None\<close> is a panic.\<close>

fun fallback_loop ::
  "('y, 'st) establisher \<Rightarrow> nat \<Rightarrow> u32 \<Rightarrow> nat list \<Rightarrow> ('y, 'st) fast_peer_connection \<Rightarrow>
   ((nat \<times> nat) list \<times> ('y, 'st) fast_peer_connection) may_panic" where
  "fallback_loop redial k rapid_deaths [] self = Some ([], self)"
| "fallback_loop redial k rapid_deaths (life # lives) self =
    (let rapid_deaths = (if FALLBACK_STABILITY \<le> life then 0 else saturating_inc rapid_deaths) in
     (case fallback_backoff rapid_deaths FALLBACK_BACKOFF_BASE FALLBACK_BACKOFF_CAP of
        None \<Rightarrow> None
      | Some backoff \<Rightarrow>
          (case redial k of
             None \<Rightarrow> Some ([(life, backoff)], self)
           | Some (_, Inl _) \<Rightarrow> Some ([(life, backoff)], self)
           | Some (_, Inr conn) \<Rightarrow>
               map_option (\<lambda>(log, self). ((life, backoff) # log, self))
                 (fallback_loop redial (k + 1) rapid_deaths lives (swap_to conn self)))))"

definition run_guard ::
  "('y, 'st) probe_env \<Rightarrow> ('y, 'st) guard_plan \<Rightarrow> nat \<Rightarrow> nat list \<Rightarrow> ('y, 'st) fast_peer_connection \<Rightarrow>
   ((nat \<times> nat) list \<times> ('y, 'st) fast_peer_connection) may_panic" where
  "run_guard env plan probe_timeout lives self =
    (let watch = (\<lambda>self. case fallback plan of None \<Rightarrow> Some ([], self) | Some redial \<Rightarrow> fallback_loop redial 0 0 lives self) in
     (case promote_from plan of
        None \<Rightarrow> watch self
      | Some None \<Rightarrow> Some ([], self)
      | Some (Some (_, Inl _)) \<Rightarrow> watch self
      | Some (Some (_, Inr direct_conn)) \<Rightarrow> watch (snd (try_promote env (fc_peer_id self) probe_timeout direct_conn self))))"

section \<open>The connection as a step system\<close>

text \<open>What the caller, the guard and the drain tasks do, in any order.  A poll of a stream changes its inner stream somehow; the
  future of an \<open>open_stream\<close> may be dropped before it completes.\<close>

inductive fast_step :: "('y, 'st) fast_peer_connection \<Rightarrow> ('y, 'st) fast_peer_connection \<Rightarrow> bool" where
  loading: "fast_step s (open_begin s)"
| opened: "k \<in> set (fc_opening s) \<Longrightarrow> open_finish env queued k s = (r, t) \<Longrightarrow> fast_step s t"
| abandoned: "k \<in> set (fc_opening s) \<Longrightarrow> fast_step s (s\<lparr> fc_opening := remove1 k (fc_opening s) \<rparr>)"
| polled: "map_of (fc_streams s) i = Some f \<Longrightarrow>
    fast_step s (s\<lparr> fc_streams := AList.update i (f\<lparr> fs_inner := x \<rparr>) (fc_streams s) \<rparr>)"
| dropped: "fast_step s (drop_stream i s)"
| driven: "drive_connection env evs (sl_session (fc_slots s ! k)) = (replies, session) \<Longrightarrow>
    fast_step s (s\<lparr> fc_slots := (fc_slots s)[k := (fc_slots s ! k)\<lparr> sl_session := session \<rparr>] \<rparr>)"
| subscribed: "fast_step s (snd (subscribe s))"
| unsubscribed: "fast_step s (unsubscribe s)"
| promoting: "try_promote penv (fc_peer_id s) probe_timeout conn s = (d, t) \<Longrightarrow> fast_step s t"
| redialed: "fast_step s (swap_to conn s)"
| drained: "k \<in> set (fc_draining s) \<Longrightarrow> fast_step s (s\<lparr> fc_draining := remove1 k (fc_draining s) \<rparr>)"

text \<open>The live streams on a slot, the invariant of the drain accounting, and a slot nobody holds.\<close>

definition live_on :: "('y, 'st) fast_peer_connection \<Rightarrow> nat \<Rightarrow> nat" where
  "live_on s k = length (filter (\<lambda>e. fs_slot (snd e) = k) (fc_streams s))"

definition slots_held :: "('y, 'st) fast_peer_connection \<Rightarrow> nat set" where
  "slots_held s = insert (fc_active s) (set (fc_opening s) \<union> set (fc_draining s) \<union> (fs_slot \<circ> snd) ` set (fc_streams s))"

definition fast_ok :: "('y, 'st) fast_peer_connection \<Rightarrow> bool" where
  "fast_ok s \<longleftrightarrow> slots_held s \<subseteq> {..<length (fc_slots s)}
     \<and> distinct (map fst (fc_streams s)) \<and> fst ` set (fc_streams s) \<subseteq> {..<fc_next_stream s}
     \<and> (\<forall>k < length (fc_slots s). sl_outstanding (fc_slots s ! k) = of_nat (live_on s k))"

text \<open>What identifies a slot's transport.\<close>

definition transport :: "('y, 'st) transport_slot \<Rightarrow> traversal_kind \<times> socket_addr \<times> bytes option" where
  "transport slot = (sl_method slot, sl_remote_addr slot, sl_peer_bls_pub slot)"

lemma on_session_transport [simp]: "transport (from_conn (snd (on_session operation self))) = transport (from_conn self)"
  by (simp add: on_session_def from_conn_def transport_def Let_def split: prod.split)

lemma transport_update [simp]:
  "transport (slot\<lparr> sl_session := x \<rparr>) = transport slot" "transport (slot\<lparr> sl_outstanding := n \<rparr>) = transport slot"
  by (simp_all add: transport_def)

lemma events_send_simps [simp]:
  "fc_peer_id (events_send m s) = fc_peer_id s" "fc_slots (events_send m s) = fc_slots s" "fc_active (events_send m s) = fc_active s"
  "fc_receivers (events_send m s) = fc_receivers s" "fc_opening (events_send m s) = fc_opening s" "fc_streams (events_send m s) = fc_streams s"
  "fc_next_stream (events_send m s) = fc_next_stream s" "fc_draining (events_send m s) = fc_draining s"
  by (simp_all add: events_send_def)

lemma swap_to_simps [simp]:
  "fc_peer_id (swap_to c s) = fc_peer_id s" "fc_slots (swap_to c s) = fc_slots s @ [from_conn c]" "fc_active (swap_to c s) = length (fc_slots s)"
  "fc_receivers (swap_to c s) = fc_receivers s" "fc_opening (swap_to c s) = fc_opening s" "fc_streams (swap_to c s) = fc_streams s"
  "fc_next_stream (swap_to c s) = fc_next_stream s" "fc_draining (swap_to c s) = fc_draining s"
  by (simp_all add: swap_to_def Let_def)

lemma nth_update [simp]: "j < length xs \<Longrightarrow> xs[k := y] ! j = (if j = k then y else xs ! j)"
  by (simp add: nth_list_update)

lemma set_delete_subset: "set (AList.delete i xs) \<subseteq> set xs"
  by (auto simp: AList.delete_eq)

lemma live_on_zero: "slots_held s \<subseteq> {..<n} \<Longrightarrow> n \<le> k \<Longrightarrow> live_on s k = 0"
  by (fastforce simp: live_on_def slots_held_def filter_empty_conv)

text \<open>A map that forgets one entry forgets one live stream of its slot.\<close>

lemma live_on_delete:
  "distinct (map fst xs) \<Longrightarrow> map_of xs i = Some f \<Longrightarrow>
   length (filter (\<lambda>e. fs_slot (snd e) = k) xs) =
   length (filter (\<lambda>e. fs_slot (snd e) = k) (AList.delete i xs)) + (if fs_slot f = k then 1 else 0)"
proof (induction xs)
  case (Cons e xs)
  have "AList.delete i xs = xs" if "i \<notin> fst ` set xs" using that by (auto intro: delete_id)
  with Cons show ?case by (cases e) (auto simp: image_iff split: if_splits)
qed simp

lemma fast_ok_build: "fast_ok (fast_build peer_id conn)"
  by (simp add: fast_ok_def fast_build_def Let_def slots_held_def live_on_def from_conn_def)

lemma fast_ok_swap:
  assumes "fast_ok s" shows "fast_ok (swap_to c s)"
proof -
  have "live_on (swap_to c s) k = live_on s k" for k by (simp add: live_on_def)
  moreover have "slots_held s \<subseteq> {..<length (fc_slots s)}" using assms by (simp add: fast_ok_def)
  moreover from this have "live_on s (length (fc_slots s)) = 0" by (rule live_on_zero) simp
  moreover have "slots_held (swap_to c s) \<subseteq> insert (length (fc_slots s)) (slots_held s)" by (auto simp: slots_held_def)
  ultimately show ?thesis
    using assms unfolding fast_ok_def by (force simp: nth_append from_conn_def less_Suc_eq)
qed

lemma open_finish_cases:
  assumes "open_finish env queued k s = (r, t)"
  obtains e session where "r = Err e" "t = s\<lparr> fc_opening := remove1 k (fc_opening s),
      fc_slots := (fc_slots s)[k := (fc_slots s ! k)\<lparr> sl_session := session \<rparr>] \<rparr>"
  | stream session where "r = Ok (fc_next_stream s)" "t = s\<lparr> fc_opening := remove1 k (fc_opening s),
      fc_slots := (fc_slots s)[k := (fc_slots s ! k)\<lparr> sl_session := session, sl_outstanding := sl_outstanding (fc_slots s ! k) + 1 \<rparr>],
      fc_streams := (fc_next_stream s, \<lparr> fs_inner = stream, fs_slot = k \<rparr>) # fc_streams s, fc_next_stream := fc_next_stream s + 1 \<rparr>"
  using assms by (auto simp: open_finish_def Let_def split: prod.splits sum.splits)

lemma try_promote_cases:
  assumes "try_promote penv pid bound conn s = (d, t)"
  obtains "t = s" | session where "pc_peer_id conn = pid" "pc_peer_bls_pub conn = sl_peer_bls_pub (active_slot s)"
    "t = (swap_to (conn\<lparr> pc_session := session \<rparr>) s)\<lparr> fc_draining := fc_active s # fc_draining s \<rparr>"
  using assms by (auto simp: try_promote_def Let_def probe_defs timeout_def split: if_splits prod.splits option.splits sum.splits)

text \<open>A slot with a loaded or live user is a slot of the list, so an update of it is seen at its own place only.\<close>

lemma fast_ok_session:
  assumes "fast_ok s"
  shows "fast_ok (s\<lparr> fc_slots := (fc_slots s)[k := (fc_slots s ! k)\<lparr> sl_session := x \<rparr>] \<rparr>)"
  using assms by (auto simp: fast_ok_def slots_held_def live_on_def)

lemma fast_ok_holders:
  assumes "fast_ok s" "set opening \<union> set draining \<subseteq> slots_held s"
  shows "fast_ok (s\<lparr> fc_opening := opening, fc_draining := draining \<rparr>)"
proof -
  have "slots_held (s\<lparr> fc_opening := opening, fc_draining := draining \<rparr>) \<subseteq> slots_held s"
    using assms(2) unfolding slots_held_def by auto
  with assms(1) show ?thesis unfolding fast_ok_def live_on_def by auto
qed

text \<open>A poll leaves every stream's number and slot.\<close>

lemma polled_slots:
  "map_of xs i = Some f \<Longrightarrow> map (\<lambda>e. (fst e, fs_slot (snd e))) (AList.update i (f\<lparr> fs_inner := x \<rparr>) xs) = map (\<lambda>e. (fst e, fs_slot (snd e))) xs"
  by (induction xs) auto

lemma same_slots:
  assumes "map (\<lambda>e. (fst e, fs_slot (snd e))) xs = map (\<lambda>e. (fst e, fs_slot (snd e))) ys"
  shows "map fst xs = map fst ys" "map (fs_slot \<circ> snd) xs = map (fs_slot \<circ> snd) ys"
    "length (filter (\<lambda>e. fs_slot (snd e) = k) xs) = length (filter (\<lambda>e. fs_slot (snd e) = k) ys)"
  using arg_cong [OF assms, of "map fst"] arg_cong [OF assms, of "map snd"]
    arg_cong [OF assms, of "\<lambda>zs. length (filter (\<lambda>z. snd z = k) zs)"]
  by (simp_all add: comp_def filter_map)

lemma polled_same:
  assumes "map_of (fc_streams s) i = Some f" "t = s\<lparr> fc_streams := AList.update i (f\<lparr> fs_inner := x \<rparr>) (fc_streams s) \<rparr>"
  shows "map fst (fc_streams t) = map fst (fc_streams s)" "live_on t k = live_on s k" "slots_held t = slots_held s"
proof -
  note eq = same_slots [OF polled_slots [OF assms(1), of x]]
  show "map fst (fc_streams t) = map fst (fc_streams s)" "live_on t k = live_on s k"
    using eq(1,3) by (simp_all add: assms(2) live_on_def)
  show "slots_held t = slots_held s" using arg_cong [OF eq(2), of set] by (simp add: assms(2) slots_held_def)
qed

lemma fast_ok_polled:
  assumes "fast_ok s" "map_of (fc_streams s) i = Some f"
  shows "fast_ok (s\<lparr> fc_streams := AList.update i (f\<lparr> fs_inner := x \<rparr>) (fc_streams s) \<rparr>)"
  using assms(1) polled_same [OF assms(2) refl, of x] unfolding fast_ok_def set_map [symmetric] by simp

lemma fast_ok_stream:
  assumes "fast_ok s" "k < length (fc_slots s)"
  shows "fast_ok (s\<lparr> fc_slots := (fc_slots s)[k := (fc_slots s ! k)\<lparr> sl_session := x, sl_outstanding := sl_outstanding (fc_slots s ! k) + 1 \<rparr>],
      fc_streams := (fc_next_stream s, \<lparr> fs_inner = st, fs_slot = k \<rparr>) # fc_streams s, fc_next_stream := fc_next_stream s + 1 \<rparr>)"
  using assms by (auto simp: fast_ok_def slots_held_def live_on_def less_Suc_eq)

lemma fast_ok_drop:
  assumes "fast_ok s" shows "fast_ok (drop_stream i s)"
proof (cases "map_of (fc_streams s) i")
  case None
  with assms show ?thesis by (simp add: drop_stream_def)
next
  case (Some f)
  let ?k = "fs_slot f" and ?rest = "AList.delete i (fc_streams s)"
  have k: "?k < length (fc_slots s)"
    using assms map_of_SomeD [OF Some] by (force simp: fast_ok_def slots_held_def)
  have live: "live_on s j = length (filter (\<lambda>e. fs_slot (snd e) = j) ?rest) + (if ?k = j then 1 else 0)" for j
    using live_on_delete [OF _ Some, of j] assms by (simp add: live_on_def fast_ok_def)
  define t where "t = drop_stream i s"
  have t: "fc_streams t = ?rest" "fc_active t = fc_active s" "fc_opening t = fc_opening s" "fc_draining t = fc_draining s"
    "fc_next_stream t = fc_next_stream s"
    "fc_slots t = (fc_slots s)[?k := (fc_slots s ! ?k)\<lparr> sl_outstanding := sl_outstanding (fc_slots s ! ?k) - 1 \<rparr>]"
    by (simp_all add: t_def drop_stream_def Some Let_def)
  note sub = set_delete_subset [of i "fc_streams s"]
  have "slots_held t \<subseteq> slots_held s"
    unfolding slots_held_def t using image_mono [OF sub, of "fs_slot \<circ> snd"] by blast
  moreover have "fst ` set ?rest \<subseteq> {..<fc_next_stream s}"
    using image_mono [OF sub, of fst] assms by (auto simp only: fast_ok_def)
  moreover have "distinct (map fst ?rest)" using assms by (simp add: fast_ok_def distinct_delete)
  moreover have "sl_outstanding (fc_slots t ! j) = of_nat (live_on t j)" if "j < length (fc_slots s)" for j
    using assms k live [of j] that by (auto simp: fast_ok_def t live_on_def)
  ultimately show ?thesis using assms unfolding t_def [symmetric] fast_ok_def t(1,5) by (simp add: t(6)) (blast intro: order_trans)
qed

lemma fast_ok_promote:
  assumes "fast_ok s" "try_promote penv (fc_peer_id s) probe_timeout conn s = (d, t)"
  shows "fast_ok t"
  using assms(2)
proof (cases rule: try_promote_cases)
  case 1
  with assms(1) show ?thesis by simp
next
  case (2 session)
  let ?u = "swap_to (conn\<lparr> pc_session := session \<rparr>) s"
  have "fast_ok ?u" using assms(1) by (rule fast_ok_swap)
  moreover have "fc_active s < length (fc_slots s)" using assms(1) by (simp add: fast_ok_def slots_held_def)
  ultimately show ?thesis unfolding 2 by (auto simp: fast_ok_def slots_held_def live_on_def)
qed

lemma fast_ok_abandon:
  assumes "fast_ok s" shows "fast_ok (s\<lparr> fc_opening := remove1 k (fc_opening s) \<rparr>)"
  using fast_ok_holders [OF assms, of "remove1 k (fc_opening s)" "fc_draining s"] set_remove1_subset [of k "fc_opening s"]
  by (auto simp: slots_held_def)

lemma fast_ok_step:
  assumes "fast_ok s" "fast_step s t" shows "fast_ok t"
  using assms(2)
proof cases
  case loading
  then show ?thesis
    using fast_ok_holders [OF assms(1), of "fc_active s # fc_opening s" "fc_draining s"] by (auto simp: open_begin_def slots_held_def)
next
  case (opened k env queued r)
  let ?u = "s\<lparr> fc_opening := remove1 k (fc_opening s) \<rparr>"
  have u: "fast_ok ?u" using assms(1) by (rule fast_ok_abandon)
  have k: "k < length (fc_slots s)" using assms(1) opened(1) by (auto simp: fast_ok_def slots_held_def)
  from opened(2) show ?thesis
  proof (cases rule: open_finish_cases)
    case (1 e session)
    with fast_ok_session [OF u, of k session] show ?thesis by simp
  next
    case (2 stream session)
    with fast_ok_stream [OF u, where k = k and x = session and st = stream] k show ?thesis by simp
  qed
next
  case (dropped i)
  with assms(1) show ?thesis by (simp add: fast_ok_drop)
next
  case (driven env evs k replies session)
  with assms(1) show ?thesis by (simp add: fast_ok_session)
next
  case subscribed
  with assms(1) show ?thesis by (simp add: subscribe_def fast_ok_def slots_held_def live_on_def)
next
  case unsubscribed
  with assms(1) show ?thesis by (simp add: unsubscribe_def fast_ok_def slots_held_def live_on_def)
next
  case (promoting penv probe_timeout conn d)
  with assms(1) show ?thesis by (blast intro: fast_ok_promote)
next
  case (abandoned k)
  with assms(1) show ?thesis by (simp add: fast_ok_abandon)
next
  case (polled i f x)
  with assms(1) show ?thesis by (simp add: fast_ok_polled)
next
  case (redialed conn)
  with assms(1) show ?thesis by (simp add: fast_ok_swap)
next
  case (drained k)
  with fast_ok_holders [OF assms(1), of "fc_opening s" "remove1 k (fc_draining s)"] set_remove1_subset [of k "fc_draining s"]
  show ?thesis by (auto simp: slots_held_def)
qed

interpretation fast: step_invariant "\<lambda>s. \<exists>peer_id conn. s = fast_build peer_id conn" fast_step fast_ok
  by unfold_locales (auto simp: fast_ok_build intro: fast_ok_step)

text \<open>What no step undoes: transports keep their metadata, streams their slot, stream numbers are not reused, and a slot
  nobody holds is never held again.\<close>

definition evolves :: "('y, 'st) fast_peer_connection \<Rightarrow> ('y, 'st) fast_peer_connection \<Rightarrow> bool" where
  "evolves s t \<longleftrightarrow> fc_peer_id t = fc_peer_id s \<and> length (fc_slots s) \<le> length (fc_slots t) \<and> fc_next_stream s \<le> fc_next_stream t
     \<and> (\<forall>k < length (fc_slots s). transport (fc_slots t ! k) = transport (fc_slots s ! k))
     \<and> (\<forall>i < fc_next_stream s. map_of (fc_streams t) i = None
         \<or> map_option fs_slot (map_of (fc_streams t) i) = map_option fs_slot (map_of (fc_streams s) i))
     \<and> slots_held t \<inter> {..<length (fc_slots s)} \<subseteq> slots_held s"

lemma evolves_refl: "evolves s s"
  by (simp add: evolves_def)

lemma evolves_trans:
  assumes "evolves s t" "evolves t u" shows "evolves s u"
  unfolding evolves_def
proof (intro conjI allI impI)
  note st = assms(1) [unfolded evolves_def] and tu = assms(2) [unfolded evolves_def]
  show "fc_peer_id u = fc_peer_id s" "length (fc_slots s) \<le> length (fc_slots u)" "fc_next_stream s \<le> fc_next_stream u"
    using st tu by auto
  show "transport (fc_slots u ! k) = transport (fc_slots s ! k)" if "k < length (fc_slots s)" for k
    using st tu that by auto
  show "map_of (fc_streams u) i = None \<or> map_option fs_slot (map_of (fc_streams u) i) = map_option fs_slot (map_of (fc_streams s) i)"
    if "i < fc_next_stream s" for i
    using st tu that by (metis option.map_disc_iff order_less_le_trans)
  show "slots_held u \<inter> {..<length (fc_slots s)} \<subseteq> slots_held s"
    using st tu by fastforce
qed

lemma evolves_swap: "evolves s (swap_to c s)"
  by (auto simp: evolves_def slots_held_def nth_append)

lemma evolves_drop: "evolves s (drop_stream i s)"
  using set_delete_subset [of i "fc_streams s"]
  by (auto simp: drop_stream_def evolves_def Let_def slots_held_def delete_conv split: option.splits)

lemma evolves_step:
  assumes "fast_ok s" "fast_step s t" shows "evolves s t"
  using assms(2)
proof cases
  case loading
  then show ?thesis by (auto simp: open_begin_def evolves_def slots_held_def)
next
  case (opened k env queued r)
  note sub = set_remove1_subset [of k "fc_opening s"]
  from opened(2) show ?thesis
    by (cases rule: open_finish_cases)
      (use opened(1) sub in \<open>auto simp: evolves_def slots_held_def\<close>)
next
  case (dropped i)
  then show ?thesis by (simp add: evolves_drop)
next
  case (driven env evs k replies session)
  then show ?thesis by (auto simp: evolves_def slots_held_def)
next
  case subscribed
  then show ?thesis by (simp add: subscribe_def evolves_def slots_held_def)
next
  case unsubscribed
  then show ?thesis by (simp add: unsubscribe_def evolves_def slots_held_def)
next
  case (abandoned k)
  then show ?thesis using set_remove1_subset [of k "fc_opening s"] by (auto simp: evolves_def slots_held_def)
next
  case (polled i f x)
  then show ?thesis using polled_same(3) [OF polled(2,1)] by (auto simp: evolves_def update_conv')
next
  case (promoting penv probe_timeout conn d)
  then show ?thesis
    by (cases rule: try_promote_cases) (auto simp: evolves_def slots_held_def nth_append)
next
  case (redialed conn)
  then show ?thesis by (simp add: evolves_swap)
next
  case (drained k)
  then show ?thesis using set_remove1_subset [of k "fc_draining s"] by (auto simp: evolves_def slots_held_def)
qed

lemma evolves_steps:
  assumes "fast_step\<^sup>*\<^sup>* s t" "fast_ok s" shows "evolves s t"
  using assms
proof (induction rule: rtranclp_induct)
  case base
  show ?case by (rule evolves_refl)
next
  case (step t u)
  then show ?case using fast.inv_steps by (blast intro: evolves_trans evolves_step)
qed

end
