(* ===== verification/Fast_Lifecycle.thy ===== *)
theory Fast_Lifecycle imports Fast_Transport begin

text \<open>
  What the transports of a \<open>FastPeerConnection\<close> guarantee (\<open>src/src/fast_connect.rs\<close>): the pacing of the
  re-dials, the drain task with its wakeups, and the properties of promotion, streams and release.
\<close>

section \<open>Pacing of the re-dials\<close>

lemma unat_push_bit_50: "k < 64 \<Longrightarrow> unat (push_bit k (50 :: u64)) = 50 * 2 ^ k mod 2 ^ 64"
  by (simp only: unsigned_push_bit_eq) (simp add: take_bit_eq_mod push_bit_eq_mult mult.commute)

text \<open>The shifted base over the whole range of shifts: exact below 59, wrapped but still above the cap up to 62, zero at
  63.\<close>

lemma shifted_base: "list_all (\<lambda>k. min 5000 (max 50 (50 * 2 ^ k mod 2 ^ 64 :: nat)) = (if k = 63 then 50 else if k < 7 then 50 * 2 ^ k else 5000)) [0..<64]"
proof -
  have "[0..<64] = 0 # 1 # [2..<64]" by (simp add: upt_rec [of 0] upt_rec [of "Suc 0"] numeral_2_eq_2)
  then show ?thesis by (simp add: upt_rec_numeral)
qed

definition redial_wait :: "nat \<Rightarrow> nat" where
  "redial_wait n = (if n = 0 then 0 else if n = 64 then 50 else if n < 8 then 50 * 2 ^ (n - 1) else 5000)"

lemma fallback_backoff_value:
  "fallback_backoff n FALLBACK_BACKOFF_BASE FALLBACK_BACKOFF_CAP = Some (redial_wait (unat n))"
proof (cases "n = 0")
  case False
  then have pos: "0 < unat n" by (simp add: word_neq_0_conv [symmetric] unat_gt_0)
  then have k: "unat (n - 1) = unat n - 1" by (simp add: unat_minus_one False)
  show ?thesis
  proof (cases "unat n - 1 < 64")
    case True
    with shifted_base have "min 5000 (max 50 (50 * 2 ^ (unat n - 1) mod 2 ^ 64 :: nat)) =
        (if unat n - 1 = 63 then 50 else if unat n - 1 < 7 then 50 * 2 ^ (unat n - 1) else 5000)"
      by (simp add: list_all_iff)
    with True False k pos show ?thesis
      by (auto simp: fallback_backoff_def FALLBACK_BACKOFF_BASE_def FALLBACK_BACKOFF_CAP_def checked_shl_def ord_clamp_def
          unat_push_bit_50 redial_wait_def Let_def min_def max_def split: if_splits)
  next
    case 2: False
    have "unat (- 1 :: u64) = 2 ^ 64 - 1" by (simp add: unsigned_minus_1_eq_mask mask_eq_exp_minus_1)
    moreover have "64 < unat n" using 2 by linarith
    ultimately show ?thesis using 2 False k
      by (simp add: fallback_backoff_def FALLBACK_BACKOFF_BASE_def FALLBACK_BACKOFF_CAP_def checked_shl_def ord_clamp_def redial_wait_def Let_def)
  qed
qed (simp add: fallback_backoff_def redial_wait_def)

lemma redial_wait_bounds: "redial_wait n \<le> 5000" "0 < n \<Longrightarrow> 50 \<le> redial_wait n"
proof -
  have "(2::nat) ^ (n - 1) \<le> 64" if "n < 8" using power_increasing [of "n - 1" 6 "2::nat"] that by simp
  then show "redial_wait n \<le> 5000" "0 < n \<Longrightarrow> 50 \<le> redial_wait n" by (auto simp: redial_wait_def)
qed

definition paced :: "nat \<times> nat \<Rightarrow> bool" where
  "paced e \<longleftrightarrow> (snd e = 0 \<longleftrightarrow> FALLBACK_STABILITY \<le> fst e) \<and> snd e \<le> FALLBACK_BACKOFF_CAP \<and> FALLBACK_BACKOFF_BASE \<le> fst e + snd e"

lemma paced_redial:
  "paced (life, redial_wait (unat (if FALLBACK_STABILITY \<le> life then 0 else saturating_inc n)))"
proof -
  have "0 < unat (saturating_inc n)" by (simp add: unat_saturating_inc)
  from redial_wait_bounds(2) [OF this] redial_wait_bounds(1) [of "unat (saturating_inc n)"] show ?thesis
    by (simp add: paced_def FALLBACK_STABILITY_def FALLBACK_BACKOFF_CAP_def FALLBACK_BACKOFF_BASE_def redial_wait_def [of 0])
qed

lemma fallback_loop_paced:
  "\<exists>log t. fallback_loop redial k n lives s = Some (log, t) \<and> map fst log = take (length log) lives \<and> list_all paced log"
proof (induction lives arbitrary: k n s)
  case (Cons life lives)
  let ?m = "if FALLBACK_STABILITY \<le> life then 0 else saturating_inc n"
  have p: "paced (life, redial_wait (unat ?m))" by (rule paced_redial)
  show ?case
  proof (cases "redial k")
    case None
    with p show ?thesis by (simp add: Let_def fallback_backoff_value)
  next
    case (Some e)
    obtain d r where e: "e = (d, r)" by (cases e)
    show ?thesis
    proof (cases r)
      case (Inl x)
      with Some e p show ?thesis by (simp add: Let_def fallback_backoff_value)
    next
      case (Inr conn)
      from Cons.IH [of "k + 1" ?m "swap_to conn s"] obtain log t where
        "fallback_loop redial (k + 1) ?m lives (swap_to conn s) = Some (log, t)" "map fst log = take (length log) lives" "list_all paced log"
        by blast
      with Some e Inr p show ?thesis by (simp add: Let_def fallback_backoff_value)
    qed
  qed
qed simp

lemma paced_total: "list_all paced log \<Longrightarrow> FALLBACK_BACKOFF_BASE * length log \<le> sum_list (map (\<lambda>(life, wait). life + wait) log)"
  by (induction log) (auto simp: paced_def)

section \<open>The drain task\<close>

text \<open>\<open>drain_then_drop\<close> against the streams of its slot.  A drop is two atomic parts, the decrement and, when it reached
  zero, the notification; a call that loaded the slot before the swap may still open a stream on it.\<close>

datatype drain_task = LoadFirst | Register | LoadAgain nat | Select nat | Released

record drain_state =
  dn_outstanding :: nat
  dn_pending :: nat
  dn_notified :: nat
  dn_task :: drain_task

text \<open>One step of the task; \<open>None\<close> when it is suspended in the \<open>select!\<close> or has let the slot go.\<close>

definition drain_then_drop :: "drain_state \<Rightarrow> drain_state option" where
  "drain_then_drop s =
    (case dn_task s of
       LoadFirst \<Rightarrow> Some (s\<lparr> dn_task := if dn_outstanding s = 0 then Released else Register \<rparr>)
     | Register \<Rightarrow> Some (s\<lparr> dn_task := LoadAgain (dn_notified s) \<rparr>)
     | LoadAgain n \<Rightarrow> Some (s\<lparr> dn_task := if dn_outstanding s = 0 then Released else Select n \<rparr>)
     | Select n \<Rightarrow> if dn_notified s = n then None else Some (s\<lparr> dn_task := LoadFirst \<rparr>)
     | Released \<Rightarrow> None)"

inductive drain_step :: "drain_state \<Rightarrow> drain_state \<Rightarrow> bool" where
  task: "drain_then_drop s = Some t \<Longrightarrow> drain_step s t"
| deadline: "dn_task s = Select n \<Longrightarrow> drain_step s (s\<lparr> dn_task := Released \<rparr>)"
| dropping: "dn_outstanding s = m + 1 \<Longrightarrow>
    drain_step s (s\<lparr> dn_outstanding := m, dn_pending := dn_pending s + (if m = 0 then 1 else 0) \<rparr>)"
| notifying: "dn_pending s = m + 1 \<Longrightarrow> drain_step s (s\<lparr> dn_pending := m, dn_notified := dn_notified s + 1 \<rparr>)"
| counting: "drain_step s (s\<lparr> dn_outstanding := dn_outstanding s + 1 \<rparr>)"

inductive_simps drain_step_iff: "drain_step s t"

definition drain_start :: "drain_state \<Rightarrow> bool" where
  "drain_start s \<longleftrightarrow> dn_task s = LoadFirst"

definition drain_inv :: "drain_state \<Rightarrow> bool" where
  "drain_inv s \<longleftrightarrow> (\<forall>n. dn_task s = Select n \<or> dn_task s = LoadAgain n \<longrightarrow> n \<le> dn_notified s)
     \<and> (dn_task s = Select (dn_notified s) \<and> dn_outstanding s = 0 \<longrightarrow> 0 < dn_pending s)"

lemma drain_inv_step: "drain_inv s \<Longrightarrow> drain_step s t \<Longrightarrow> drain_inv t"
  by (erule drain_step.cases) (auto simp: drain_inv_def drain_then_drop_def split: drain_task.splits if_splits)

interpretation drain: step_invariant drain_start drain_step drain_inv
proof unfold_locales
  show "drain_start s \<Longrightarrow> drain_inv s" for s by (simp add: drain_start_def drain_inv_def)
qed (rule drain_inv_step)

fun drain_steps :: "nat \<Rightarrow> drain_state \<Rightarrow> drain_state" where
  "drain_steps 0 s = s"
| "drain_steps (Suc n) s = (case drain_then_drop s of None \<Rightarrow> s | Some t \<Rightarrow> drain_steps n t)"

section \<open>Promotion\<close>

definition gate_passed :: "('y, 'st) probe_env \<Rightarrow> peer_id \<Rightarrow> nat \<Rightarrow> ('y, 'st) driver peer_connection \<Rightarrow> ('y, 'st) fast_peer_connection \<Rightarrow> bool" where
  "gate_passed env peer_id bound conn s \<longleftrightarrow> pc_peer_id conn = peer_id \<and> pc_peer_bls_pub conn = sl_peer_bls_pub (active_slot s)
     \<and> (case pe_delay env of None \<Rightarrow> False | Some d \<Rightarrow> in_time (pe_tie env) d bound)
     \<and> is_ok (fst (query_availability (pe_mux env) (pe_request env) (pe_response env) (pe_queued env) (pc_session conn) []))"

text \<open>A run for the witnesses: a stream is opened on the relayed transport, then a direct one is promoted and the drain
  task gives up at its deadline.\<close>

definition demo_relayed :: "(nat, bytes) driver peer_connection" where
  "demo_relayed = \<lparr> pc_peer_id = [2], pc_method = Relayed, pc_remote_addr = SocketAddr (IpV4 9) 9, pc_peer_bls_pub = None, pc_session = session_new 0 \<rparr>"

definition demo_direct :: "(nat, bytes) driver peer_connection" where
  "demo_direct = \<lparr> pc_peer_id = [2], pc_method = Direct, pc_remote_addr = SocketAddr (IpV4 7) 8, pc_peer_bls_pub = None, pc_session = session_new 0 \<rparr>"

definition demo_probe :: "(nat, bytes) probe_env" where
  "demo_probe = \<lparr> pe_mux = demo_mux [0, 0, 0, 1, 1], pe_request = unit_codec \<lparr> ar_items = [] \<rparr>,
     pe_response = unit_codec \<lparr> as_items = [] \<rparr>, pe_queued = [], pe_delay = Some 3, pe_tie = False \<rparr>"

definition with_stream :: "(nat, bytes) fast_peer_connection" where
  "with_stream = snd (fast_open_stream (demo_mux []) [] (fast_build [2] demo_relayed))"

definition promoted_conn :: "(nat, bytes) fast_peer_connection" where
  "promoted_conn = snd (try_promote demo_probe [2] 1000 demo_direct with_stream)"

lemma unit_codec_frame: "encode_framed (unit_codec x) x = Ok [0, 0, 0, 1, 1]"
proof -
  have "be_bytes 4 (1 :: u32) = [0, 0, 0, 1]" by (simp add: numeral_eq_Suc)
  then show ?thesis by (simp add: encode_framed_def unit_codec_def MAX_FRAMED_BODY_def)
qed

lemma unit_codec_unframe: "decode_framed (unit_codec x) ([0, 0, 0, 1, 1], None) = (Ok x, ([], None))"
  using decode_encoded(1) [OF unit_codec_roundtrip unit_codec_frame, where rest = "[]" and e = None] by simp

lemma demo_query: "query_availability (demo_mux [0, 0, 0, 1, 1]) (unit_codec \<lparr> ar_items = [] \<rparr>) (unit_codec \<lparr> as_items = [] \<rparr>) [] (session_new 0) []
    = (Ok \<lparr> as_items = [] \<rparr>, (session_new 0)\<lparr> dr_conn := 1 \<rparr>)"
  by (simp add: query_availability_def open_stream_def session_new_def demo_mux_def write_preamble_def Let_def
      unit_codec_frame unit_codec_unframe)

lemma with_stream_eq:
  "with_stream = (fast_build [2] demo_relayed)\<lparr> fc_slots := [(from_conn demo_relayed)\<lparr> sl_session := (session_new 0)\<lparr> dr_conn := 1 \<rparr>, sl_outstanding := 1 \<rparr>],
     fc_streams := [(0, \<lparr> fs_inner = [], fs_slot = 0 \<rparr>)], fc_next_stream := 1 \<rparr>"
  by (simp add: with_stream_def fast_open_stream_def open_begin_def open_finish_def fast_build_def from_conn_def demo_relayed_def
      open_stream_def session_new_def demo_mux_def Let_def)

lemma promoted_conn_eq:
  "promoted_conn = (swap_to (demo_direct\<lparr> pc_session := (session_new 0)\<lparr> dr_conn := 1 \<rparr> \<rparr>) with_stream)\<lparr> fc_draining := [0] \<rparr>"
  by (simp add: promoted_conn_def try_promote_def probe_defs demo_probe_def demo_query timeout_def in_time_def with_stream_eq
      active_slot_def demo_direct_def demo_relayed_def from_conn_def fast_build_def Let_def)

lemma with_stream_reachable: "fast_step\<^sup>*\<^sup>* (fast_build [2] demo_relayed) with_stream"
proof -
  let ?s = "fast_build [2] demo_relayed"
  have "fast_step ?s (open_begin ?s)" by (rule fast_step.loading)
  moreover have "fast_step (open_begin ?s) with_stream"
    by (rule fast_step.opened [of 0 _ "demo_mux []" "[]" "fst (fast_open_stream (demo_mux []) [] ?s)"])
      (simp_all add: open_begin_def with_stream_def fast_open_stream_def fast_build_def Let_def)
  ultimately show ?thesis by (meson converse_rtranclp_into_rtranclp rtranclp.rtrancl_refl)
qed

lemma promoted_conn_step: "fast_step with_stream promoted_conn"
  by (rule fast_step.promoting [of demo_probe _ 1000 demo_direct "fst (try_promote demo_probe [2] 1000 demo_direct with_stream)"])
    (simp add: promoted_conn_def with_stream_eq fast_build_def Let_def)

section \<open>Properties\<close>

text \<open>C10.  A direct path is promoted only through the gate: the verified identity, the same BLS key as the transport it
  replaces, and one availability round trip answered within the bound.  Through it, new streams go to the new
  transport, the running ones stay where they are, the old transport is handed to a drain task; a refused
  gate changes nothing at all, and either way the gate takes at most the bound.\<close>

theorem promotion_gate:
  "fst (try_promote env peer_id bound conn s) \<le> bound \<and>
   (let t = snd (try_promote env peer_id bound conn s) in
    if gate_passed env peer_id bound conn s
    then fc_active t = length (fc_slots s) \<and> length (fc_slots t) = length (fc_slots s) + 1
      \<and> transport (active_slot t) = (pc_method conn, pc_remote_addr conn, sl_peer_bls_pub (active_slot s))
      \<and> fc_streams t = fc_streams s \<and> fc_opening t = fc_opening s \<and> fc_draining t = fc_active s # fc_draining s
    else t = s)"
  by (auto simp: try_promote_def gate_passed_def Let_def timeout_def probe_defs active_slot_def nth_append from_conn_def transport_def
      is_ok_def in_time_def split: option.splits sum.splits prod.splits)

text \<open>C9.  No live stream ever migrates: in every run, promotions, re-dials and the streams' own reads and writes included, a stream stays on the transport it was
  opened on until it is dropped, that transport keeps its tier, address and key, and its count of outstanding
  streams is the number of streams living on it.\<close>

theorem streams_never_migrate:
  assumes "fast_step\<^sup>*\<^sup>* (fast_build peer_id conn) s" "fast_step\<^sup>*\<^sup>* s t" "map_of (fc_streams s) i = Some f"
  shows "pred_option (\<lambda>g. fs_slot g = fs_slot f) (map_of (fc_streams t) i)
    \<and> transport (fc_slots t ! fs_slot f) = transport (fc_slots s ! fs_slot f)
    \<and> sl_outstanding (fc_slots t ! fs_slot f) = of_nat (live_on t (fs_slot f)) \<and> fc_peer_id t = peer_id"
proof -
  have ok: "fast_ok s" using fast.inv_reachable [OF _ assms(1)] by blast
  have ev: "evolves s t" using evolves_steps [OF assms(2) ok] .
  have "fc_peer_id s = peer_id"
    using evolves_steps [OF assms(1) fast_ok_build] by (simp add: evolves_def fast_build_def Let_def)
  moreover have "i < fc_next_stream s" "fs_slot f < length (fc_slots s)"
    using ok map_of_SomeD [OF assms(3)] by (force simp: fast_ok_def slots_held_def)+
  ultimately show ?thesis
    using ev fast.inv_steps [OF assms(2) ok] assms(3) unfolding evolves_def fast_ok_def by (auto simp: option.pred_set)
qed

theorem streams_never_migrate_witness:
  "fs_slot (the (map_of (fc_streams promoted_conn) 0)) = 0 \<and> transport (fc_slots promoted_conn ! 0) = (Relayed, SocketAddr (IpV4 9) 9, None)
   \<and> current_method promoted_conn = Direct"
proof -
  have "map_of (fc_streams with_stream) 0 = Some \<lparr> fs_inner = [], fs_slot = 0 \<rparr>" by (simp add: with_stream_eq)
  from streams_never_migrate [OF with_stream_reachable r_into_rtranclp [of fast_step, OF promoted_conn_step] this] show ?thesis
    by (simp add: promoted_conn_eq with_stream_eq fast_build_def Let_def transport_def from_conn_def demo_relayed_def
        current_method_def active_slot_def demo_direct_def nth_append)
qed




text \<open>The wait before a re-dial, for every 32-bit count: none for 0, doubling from 50 milliseconds to the cap of 5 seconds
  from then on, with one exception: at the 64th rapid death in a row the shift has pushed the base out of
  its word and the wait falls back to 50 milliseconds.\<close>

theorem fallback_backoff_exact:
  "fallback_backoff n FALLBACK_BACKOFF_BASE FALLBACK_BACKOFF_CAP =
     Some (if n = 0 then 0 else if n = 64 then 50 else min (50 * 2 ^ (unat n - 1)) 5000)"
proof -
  have "n = 0 \<longleftrightarrow> unat n = 0" "n = 64 \<longleftrightarrow> unat n = 64" by (simp_all add: word_unat_eq_iff)
  moreover have "8 \<le> unat n \<Longrightarrow> (2::nat) ^ 7 \<le> 2 ^ (unat n - 1)" by (rule power_increasing) simp_all
  moreover have "unat n < 8 \<Longrightarrow> (2::nat) ^ (unat n - 1) \<le> 2 ^ 6" by (rule power_increasing) simp_all
  ultimately show ?thesis by (auto simp: fallback_backoff_value redial_wait_def)
qed

text \<open>C28.  The drain misses no wakeup: however the drops of the streams interleave with it, once the last stream is gone and
  has notified, the task lets the slot go within two of its own steps, without its deadline.\<close>

theorem drain_no_lost_wakeup:
  assumes "drain_start s0" "drain_step\<^sup>*\<^sup>* s0 s" "dn_outstanding s = 0" "dn_pending s = 0"
  shows "dn_task (drain_steps 2 s) = Released"
  using drain.inv_reachable [OF assms(1,2)] assms(3,4)
  by (cases "dn_task s") (auto simp: drain_inv_def drain_then_drop_def numeral_2_eq_2)

theorem drain_no_lost_wakeup_witness:
  "dn_task (drain_steps 2 \<lparr> dn_outstanding = 0, dn_pending = 0, dn_notified = 1, dn_task = Select 0 \<rparr>) = Released"
proof -
  let ?st = "\<lambda>o' p n t. \<lparr> dn_outstanding = o', dn_pending = p, dn_notified = n, dn_task = t \<rparr>"
  have steps: "drain_step (?st 1 0 0 LoadFirst) (?st 1 0 0 Register)" "drain_step (?st 1 0 0 Register) (?st 1 0 0 (LoadAgain 0))"
    "drain_step (?st 1 0 0 (LoadAgain 0)) (?st 1 0 0 (Select 0))" "drain_step (?st 1 0 0 (Select 0)) (?st 0 1 0 (Select 0))"
    "drain_step (?st 0 1 0 (Select 0)) (?st 0 0 1 (Select 0))"
    by (simp_all add: drain_step_iff drain_then_drop_def)
  have "drain_step\<^sup>*\<^sup>* (?st 1 0 0 LoadFirst) (?st 0 0 1 (Select 0))"
    using steps by (meson converse_rtranclp_into_rtranclp rtranclp.rtrancl_refl)
  from drain_no_lost_wakeup [OF _ this] show ?thesis by (simp add: drain_start_def)
qed

text \<open>What a subscriber sees: the channel follows the active transport only while somebody subscribes.  Of a switch nobody
  was subscribed to, a later subscriber sees nothing: the channel still holds the old tier.\<close>

theorem late_subscriber_sees_old_tier:
  "fst (subscribe (swap_to conn s)) = (if fc_receivers s = 0 then fst (subscribe s) else pc_method conn)
   \<and> current_method (swap_to conn s) = pc_method conn"
  by (simp add: subscribe_def swap_to_def events_send_def current_method_def active_slot_def from_conn_def Let_def)

end
