(* ===== verification/Fast_Connect.thy ===== *)
theory Fast_Connect imports Fast_Lifecycle Ladder begin

text \<open>
  \<open>connect_fast\<close> (\<open>src/src/fast_connect.rs\<close>): the race of the relayed dial against the direct ladder, and what
  it hands to the connection of \<open>Fast_Transport\<close>.

  An establisher is the sequence of the futures its calls give; the world may differ at each call, so
  the environments are functions of the number of the call.
\<close>

section \<open>The race\<close>

text \<open>\<open>futures::select\<close>: the first of two futures to complete, with what is left of the other.  When both complete in the
  same millisecond, \<open>tie\<close> says which is seen first.\<close>

definition remaining :: "nat \<Rightarrow> 'a future \<Rightarrow> 'a future" where
  "remaining d f = map_option (\<lambda>(e, x). (e - d, x)) f"

definition select :: "bool \<Rightarrow> 'a future \<Rightarrow> 'b future \<Rightarrow> ('a \<times> 'b future + 'b \<times> 'a future) future" where
  "select tie f g =
    (case (f, g) of
       (None, None) \<Rightarrow> None
     | (Some (d, x), None) \<Rightarrow> Some (d, Inl (x, None))
     | (None, Some (e, y)) \<Rightarrow> Some (e, Inr (y, None))
     | (Some (d, x), Some (e, y)) \<Rightarrow>
         if in_time tie d e then Some (d, Inl (x, remaining d g)) else Some (e, Inr (y, remaining e f)))"

definition errors_of :: "nat_error \<Rightarrow> method_error list" where
  "errors_of e = (case e of AllMethodsFailed fs \<Rightarrow> fs | _ \<Rightarrow> [])"

definition merge_errors :: "nat_error \<Rightarrow> nat_error \<Rightarrow> nat_error" where
  "merge_errors relayed direct = AllMethodsFailed (foldl (\<lambda>failures e. failures @ errors_of e) [] [relayed, direct])"

text \<open>What \<open>connect_fast_with\<close> returns: the connection, and the plan its guard runs on.\<close>

type_synonym ('y, 'st) started = "('y, 'st) fast_peer_connection \<times> ('y, 'st) guard_plan"

definition build :: "peer_id \<Rightarrow> ('y, 'st) driver peer_connection \<Rightarrow> ('y, 'st) guard_plan \<Rightarrow> ('y, 'st) started" where
  "build peer_id initial plan = (fast_build peer_id initial, plan)"

text \<open>The calls after the first.\<close>

definition again :: "('y, 'st) establisher \<Rightarrow> ('y, 'st) establisher" where
  "again est k = est (k + 1)"

definition connect_fast_with ::
  "bool \<Rightarrow> peer_id \<Rightarrow> ('y, 'st) establisher \<Rightarrow> ('y, 'st) establisher option \<Rightarrow> (nat_error, ('y, 'st) started) result future" where
  "connect_fast_with tie expected_peer_id direct relayed =
    (case relayed of
       None \<Rightarrow> await_ok (direct 0) (\<lambda>conn. ready (Ok (build expected_peer_id conn guard_plan_none)))
     | Some relayed \<Rightarrow>
         await (select tie (relayed 0) (direct 0)) (\<lambda>first.
           (case first of
              Inl (relayed_res, direct_fut) \<Rightarrow>
                (case relayed_res of
                   Inr relayed_conn \<Rightarrow>
                     ready (Ok (build expected_peer_id relayed_conn \<lparr> promote_from = Some direct_fut, fallback = Some (again relayed) \<rparr>))
                 | Inl relayed_err \<Rightarrow>
                     await direct_fut (\<lambda>direct_res.
                       (case direct_res of
                          Inr direct_conn \<Rightarrow> ready (Ok (build expected_peer_id direct_conn (fallback_only (Some (again relayed)))))
                        | Inl direct_err \<Rightarrow> ready (Err (merge_errors relayed_err direct_err)))))
            | Inr (direct_res, relayed_fut) \<Rightarrow>
                (case direct_res of
                   Inr direct_conn \<Rightarrow> ready (Ok (build expected_peer_id direct_conn (fallback_only (Some (again relayed)))))
                 | Inl direct_err \<Rightarrow>
                     await relayed_fut (\<lambda>relayed_res.
                       (case relayed_res of
                          Inr relayed_conn \<Rightarrow>
                            ready (Ok (build expected_peer_id relayed_conn \<lparr> promote_from = Some (direct 1), fallback = Some (again relayed) \<rparr>))
                        | Inl relayed_err \<Rightarrow> ready (Err (merge_errors relayed_err direct_err))))))))"

section \<open>The production establishers\<close>

definition direct_establisher ::
  "(nat \<Rightarrow> ('node, 'bp, 'cfg, 'io, 'stack, 'c, 'tun, ('y, 'st) driver) dial_env) \<Rightarrow> (nat \<Rightarrow> ladder_env) \<Rightarrow> peer_target \<Rightarrow> 'node \<Rightarrow>
   'bp nat_config \<Rightarrow> 'tun nat_runtime \<Rightarrow> ('y, 'st) establisher" where
  "direct_establisher env le peer node config runtime k =
    (let direct_config = config\<lparr> enabled_methods := List.filter (\<lambda>m. m \<noteq> Relayed) (enabled_methods config) \<rparr>;
         direct_methods = compose_ladder (le k) direct_config runtime;
         direct_dialer = with_binding_policy (mtls_dialer_new (env k) node) (binding_policy config)
     in Some (connect_with_strategy (le_tie (le k)) peer direct_methods (mtls_dial (env k) direct_dialer) (per_method_timeout config)))"

definition relayed_establisher ::
  "(nat \<Rightarrow> ('node, 'bp, 'cfg, 'io, 'stack, 'c, 'tun, ('y, 'st) driver) dial_env) \<Rightarrow> peer_target \<Rightarrow> 'node \<Rightarrow>
   'bp nat_config \<Rightarrow> 'tun tunnel_dialer \<Rightarrow> ('y, 'st) establisher" where
  "relayed_establisher env peer node config relayed_dialer k =
    (let endpoint = rd_relay_endpoint relayed_dialer;
         dialer = with_relayed_dialer (with_binding_policy (mtls_dialer_new (env k) node) (binding_policy config)) relayed_dialer;
         outcome = outcome_single Relayed endpoint
     in map_future (map_err (\<lambda>e. AllMethodsFailed [e])) (mtls_dial (env k) dialer peer outcome))"

definition connect_fast ::
  "bool \<Rightarrow> (nat \<Rightarrow> ('node, 'bp, 'cfg, 'io, 'stack, 'c, 'tun, ('y, 'st) driver) dial_env) \<Rightarrow> (nat \<Rightarrow> ladder_env) \<Rightarrow> peer_target \<Rightarrow> 'node \<Rightarrow>
   'bp nat_config \<Rightarrow> 'tun nat_runtime \<Rightarrow> (nat_error, ('y, 'st) started) result future" where
  "connect_fast tie env le peer node config runtime =
    connect_fast_with tie (pt_peer_id peer) (direct_establisher env le peer node config runtime)
      (map_option (relayed_establisher env peer node config) (rt_relayed runtime))"

section \<open>The race against its specification\<close>

text \<open>When and with what a dial succeeds.\<close>

definition landing :: "('e, 'a) result future \<Rightarrow> (nat \<times> 'a) option" where
  "landing f = (case f of Some (d, Inr x) \<Rightarrow> Some (d, x) | _ \<Rightarrow> None)"

definition first_usable ::
  "bool \<Rightarrow> peer_id \<Rightarrow> ('y, 'st) establisher \<Rightarrow> ('y, 'st) establisher \<Rightarrow> (nat_error, ('y, 'st) started) result future" where
  "first_usable tie peer_id direct relayed =
    (let relayed_start = (\<lambda>d conn plan. Some (d, Ok (build peer_id conn \<lparr> promote_from = Some plan, fallback = Some (again relayed) \<rparr>)));
         direct_start = (\<lambda>d conn. Some (d, Ok (build peer_id conn (fallback_only (Some (again relayed)))))) in
     (case (landing (relayed 0), landing (direct 0)) of
        (Some (d, rc), Some (e, dc)) \<Rightarrow> if in_time tie d e then relayed_start d rc (remaining d (direct 0)) else direct_start e dc
      | (None, Some (e, dc)) \<Rightarrow> direct_start e dc
      | (Some (d, rc), None) \<Rightarrow>
          (case direct 0 of
             Some (e, _) \<Rightarrow> relayed_start d rc (if in_time tie d e then remaining d (direct 0) else direct 1)
           | None \<Rightarrow> relayed_start d rc None)
      | (None, None) \<Rightarrow>
          (case (relayed 0, direct 0) of
             (Some (d, Inl re), Some (e, Inl de)) \<Rightarrow> Some (max d e, Err (AllMethodsFailed (errors_of re @ errors_of de)))
           | _ \<Rightarrow> None)))"

lemma connect_fast_with_eq: "connect_fast_with tie peer_id direct (Some relayed) = first_usable tie peer_id direct relayed"
proof (cases "relayed 0"; cases "direct 0")
  fix a b assume "relayed 0 = Some a" "direct 0 = Some b"
  then show ?thesis
    by (cases a; cases b; cases "snd a"; cases "snd b")
      (auto simp: connect_fast_with_def first_usable_def select_def landing_def remaining_def await_def ready_def merge_errors_def
        in_time_def Let_def max_def)
next
  fix a assume "relayed 0 = Some a" "direct 0 = None"
  then show ?thesis
    by (cases a; cases "snd a")
      (auto simp: connect_fast_with_def first_usable_def select_def landing_def remaining_def await_def ready_def Let_def)
next
  fix b assume "relayed 0 = None" "direct 0 = Some b"
  then show ?thesis
    by (cases b; cases "snd b")
      (auto simp: connect_fast_with_def first_usable_def select_def landing_def remaining_def await_def ready_def Let_def)
qed (simp add: connect_fast_with_def first_usable_def select_def landing_def await_def Let_def)

text \<open>What a started connection may dial, now or later.\<close>

definition plan_dials :: "('y, 'st) guard_plan \<Rightarrow> ('y, 'st) dial_future set" where
  "plan_dials plan = set_option (promote_from plan) \<union> (case fallback plan of None \<Rightarrow> {} | Some f \<Rightarrow> range f)"

definition pinned_dial :: "peer_id \<Rightarrow> ('y, 'st) dial_future \<Rightarrow> bool" where
  "pinned_dial peer_id f \<longleftrightarrow> (\<forall>d conn. f = Some (d, Ok conn) \<longrightarrow> pc_peer_id conn = peer_id)"

lemma pinned_remaining: "pinned_dial peer_id f \<Longrightarrow> pinned_dial peer_id (remaining d f)"
  by (auto simp: pinned_dial_def remaining_def)

lemma direct_pinned:
  assumes "\<And>k. spki_pinned (env k)"
  shows "pinned_dial (pt_peer_id peer) (direct_establisher env le peer node config runtime k)"
proof -
  have "pc_peer_id conn = pt_peer_id peer"
    if won: "connect_with_strategy tie peer methods (mtls_dial (env k) self) t = (d, Ok conn)" for tie methods self t d conn
  proof -
    obtain out d' where "mtls_dial (env k) self peer out = Some (d', Ok conn)"
      using strategy_success_dialed [of tie peer methods "mtls_dial (env k) self" t conn] unfolding won by auto
    from mtls_dial_Ok(2) [OF this] show ?thesis using handshake_over_pinned [OF assms] by blast
  qed
  then show ?thesis by (auto simp: pinned_dial_def direct_establisher_def Let_def)
qed

lemma relayed_pinned:
  assumes "\<And>k. spki_pinned (env k)"
  shows "pinned_dial (pt_peer_id peer) (relayed_establisher env peer node config r k)"
  using handshake_over_pinned [OF assms] mtls_dial_Ok(2)
  by (fastforce simp: pinned_dial_def relayed_establisher_def Let_def)

text \<open>Whatever a race starts with, connection and plan, comes from its two establishers.\<close>

lemma first_usable_pinned:
  assumes "\<And>k. pinned_dial peer_id (direct k)" "\<And>k. pinned_dial peer_id (relayed k)"
    and "first_usable tie peer_id direct relayed = Some (d, Ok (fc, plan))"
  shows "(\<exists>conn. fc = fast_build peer_id conn \<and> pc_peer_id conn = peer_id) \<and> (\<forall>f \<in> plan_dials plan. pinned_dial peer_id f)"
proof -
  have again: "pinned_dial peer_id (again relayed k)" for k using assms(2) by (simp add: again_def)
  have never: "pinned_dial peer_id None" by (simp add: pinned_dial_def)
  have land: "pc_peer_id conn = peer_id" if "landing f = Some (e, conn)" "pinned_dial peer_id f" for f e conn
    using that by (auto simp: landing_def pinned_dial_def split: option.splits sum.splits)
  have rest: "direct 0 = f \<Longrightarrow> pinned_dial peer_id (remaining e f)" for e f using assms(1) pinned_remaining by blast
  note conns = land [OF _ assms(1) [of 0]] land [OF _ assms(2) [of 0]]
  from assms(3) show ?thesis
    by (auto simp: first_usable_def Let_def build_def fallback_only_def plan_dials_def again never assms(1)
        split: option.splits if_splits sum.splits prod.splits dest: conns intro: rest)
qed

lemma direct_establisher_total:
  "\<exists>d r. direct_establisher env le peer node config runtime k = Some (d, r) \<and>
     d \<le> 2 * length (composed_tiers (cfg_disable config Relayed) runtime) * per_method_timeout config"
proof -
  let ?c = "cfg_disable config Relayed"
  have "length (compose_ladder (le k) ?c runtime) = length (composed_tiers ?c runtime)"
    using compose_ladder_kinds [of "le k" ?c runtime] by (metis composed_tiers_def length_map)
  with connect_with_strategy_bound [of "le_tie (le k)" peer "compose_ladder (le k) ?c runtime"
      "mtls_dial (env k) (with_binding_policy (mtls_dialer_new (env k) node) (binding_policy config))" "per_method_timeout config"]
  show ?thesis
    by (cases "connect_with_strategy (le_tie (le k)) peer (compose_ladder (le k) ?c runtime)
      (mtls_dial (env k) (with_binding_policy (mtls_dialer_new (env k) node) (binding_policy config))) (per_method_timeout config)")
      (simp add: direct_establisher_def cfg_disable_def Let_def)
qed

section \<open>Properties\<close>

text \<open>C17.  The race returns the first usable transport: the dial that succeeds first, at that time, relayed or direct, with the
  other one's remaining dial as the promotion and the relay as the fallback; when neither succeeds, both lists of
  errors once both failed.  Without a relay it is the direct ladder alone.\<close>

theorem connect_fast_first_usable:
  "connect_fast tie env le peer node config runtime =
    (let direct = direct_establisher env le peer node config runtime in
     case rt_relayed runtime of
       Some r \<Rightarrow> first_usable tie (pt_peer_id peer) direct (relayed_establisher env peer node config r)
     | None \<Rightarrow> map_future (map_sum id (\<lambda>conn. (fast_build (pt_peer_id peer) conn, guard_plan_none))) (direct 0))"
proof (cases "rt_relayed runtime")
  case None
  obtain d r where "direct_establisher env le peer node config runtime 0 = Some (d, r)"
    using direct_establisher_total [of env le peer node config runtime 0] by auto
  with None show ?thesis
    by (cases r) (simp_all add: connect_fast_def connect_fast_with_def await_ok_def await_def map_future_def ready_def build_def Let_def)
qed (simp add: connect_fast_def connect_fast_with_eq Let_def)

text \<open>Every transport of a fast connection is authenticated: the first one, the one it may be promoted to and every one it
  falls back to carry the identity that was asked for, given the pinning contract of the TLS library.\<close>

theorem connect_fast_authenticated:
  assumes "\<And>k. spki_pinned (env k)" "connect_fast tie env le peer node config runtime = Some (d, Ok (fc, plan))"
  shows "(\<exists>conn. fc = fast_build (pt_peer_id peer) conn \<and> pc_peer_id conn = pt_peer_id peer)
    \<and> (\<forall>f \<in> plan_dials plan. pinned_dial (pt_peer_id peer) f)"
proof (cases "rt_relayed runtime")
  case None
  with assms(2) obtain conn where "direct_establisher env le peer node config runtime 0 = Some (d, Ok conn)"
      "fc = fast_build (pt_peer_id peer) conn" "plan = guard_plan_none"
    by (auto simp: connect_fast_def connect_fast_with_def await_ok_eq_Ok build_def)
  with direct_pinned [OF assms(1), where peer = peer and le = le and node = node and config = config and runtime = runtime and k = 0] show ?thesis
    by (auto simp: pinned_dial_def plan_dials_def guard_plan_none_def)
next
  case (Some r)
  with assms(2) have "first_usable tie (pt_peer_id peer) (direct_establisher env le peer node config runtime)
      (relayed_establisher env peer node config r) = Some (d, Ok (fc, plan))"
    by (simp add: connect_fast_def connect_fast_with_eq)
  from first_usable_pinned [OF direct_pinned [OF assms(1)] relayed_pinned [OF assms(1)] this] show ?thesis .
qed

definition fast_env :: "(peer_id, unit, peer_id option, unit, unit, unit, unit, (nat, bytes) driver) dial_env" where
  "fast_env = \<lparr> node_peer_id = (\<lambda>n. n), peer_id_to_hex = (\<lambda>_. []), binding_policy_default = (),
     client_config_spki_pinned = (\<lambda>_ pid _. Ok pid), server_config_spki_pinned = (\<lambda>n _. Ok (Some n)),
     server_name_try_from = Ok, tls_connect = (\<lambda>cfg _ io. Some (3, Ok \<lparr> tls_stream = io, captured_peer_id = cfg, captured_bls = None \<rparr>)),
     tls_accept = (\<lambda>_ io. Some (3, Ok \<lparr> tls_stream = io, captured_peer_id = Some [9], captured_bls = None \<rparr>)),
     local_stack_cached = (), candidates_new = (), candidates_extend = (\<lambda>c _ _. c),
     ip_connect = (\<lambda>_ _ _ _. Some (2, Ok ((), SocketAddr (IpV4 7) 8))), tcp_connect = (\<lambda>_. ready (Ok ())),
     show_addr = (\<lambda>_. []), tunnel_stream = (\<lambda>t. t), session_client = peer_session_client (\<lambda>_ _. 0), session_server = peer_session_server (\<lambda>_ _. 0) \<rparr>"

lemma fast_env_pinned: "spki_pinned fast_env"
  by (auto simp: spki_pinned_def fast_env_def)

text \<open>A relay that answers at once.\<close>

definition demo_relay :: "unit tunnel_dialer" where
  "demo_relay = \<lparr> rd_relay_endpoint = SocketAddr (IpV4 9) 9, rd_is_ready = True, rd_open_dial_tunnel = (\<lambda>_ _. ready (Ok ())) \<rparr>"

lemma demo_relayed_dial: "relayed_establisher (\<lambda>_. fast_env) (relay_only [2] []) [1] (nat_config_default [] ()) demo_relay k =
    Some (3, Ok \<lparr> pc_peer_id = [2], pc_method = Relayed, pc_remote_addr = SocketAddr (IpV4 9) 9, pc_peer_bls_pub = None, pc_session = session_new 0 \<rparr>)"
  by (simp add: relayed_establisher_def mtls_dial_def dial_relayed_def fast_env_def peer_session_client_def demo_relay_def mtls_dialer_new_def
      with_binding_policy_def with_relayed_dialer_def relay_only_def outcome_single_def outcome_dial_addr_def handshake_over_def
      await_ok_def await_def map_future_def ready_def Let_def)

lemma demo_start:
  "\<exists>d fc plan. connect_fast False (\<lambda>_. fast_env) (\<lambda>_. sample_ladder_env) (relay_only [2] []) [1] (nat_config_default [] ())
       (rt_set_relayed nat_runtime_default demo_relay) = Some (d, Ok (fc, plan))"
proof -
  let ?rt = "rt_set_relayed nat_runtime_default demo_relay" and ?c = "nat_config_default [] ()" and ?p = "relay_only [2] []"
  have rel: "rt_relayed ?rt = Some demo_relay" by (simp add: rt_set_relayed_def)
  obtain e r where direct: "direct_establisher (\<lambda>_. fast_env) (\<lambda>_. sample_ladder_env) ?p [1] ?c ?rt 0 = Some (e, r)"
    using direct_establisher_total [of "\<lambda>_. fast_env" "\<lambda>_. sample_ladder_env" ?p "[1]" ?c ?rt 0] by auto
  then show ?thesis
    by (cases r; cases "in_time False 3 e")
      (auto simp: connect_fast_def connect_fast_with_eq rel first_usable_def landing_def demo_relayed_dial build_def Let_def)
qed

theorem connect_fast_authenticated_witness:
  "\<exists>d fc plan. connect_fast False (\<lambda>_. fast_env) (\<lambda>_. sample_ladder_env) (relay_only [2] []) [1] (nat_config_default [] ())
       (rt_set_relayed nat_runtime_default demo_relay) = Some (d, Ok (fc, plan)) \<and> fc_peer_id fc = [2]"
proof -
  obtain d fc plan where start: "connect_fast False (\<lambda>_. fast_env) (\<lambda>_. sample_ladder_env) (relay_only [2] []) [1] (nat_config_default [] ())
       (rt_set_relayed nat_runtime_default demo_relay) = Some (d, Ok (fc, plan))"
    using demo_start by blast
  from connect_fast_authenticated [OF fast_env_pinned start] start show ?thesis
    by (auto simp: fast_build_def relay_only_def Let_def)
qed

text \<open>C18.  When \<open>connect_fast\<close> hangs: exactly when the relayed dial never completes and the direct ladder fails.  The direct
  ladder is bounded by two timeouts per tier, but the relayed dial runs without a timeout.\<close>

theorem connect_fast_hangs_iff:
  "(connect_fast tie env le peer node config runtime = None \<longleftrightarrow>
     (\<exists>r d e. rt_relayed runtime = Some r \<and> relayed_establisher env peer node config r 0 = None
        \<and> direct_establisher env le peer node config runtime 0 = Some (d, Err e)))
   \<and> (\<exists>d r. direct_establisher env le peer node config runtime 0 = Some (d, r)
        \<and> d \<le> 2 * length (composed_tiers (cfg_disable config Relayed) runtime) * per_method_timeout config)"
proof -
  obtain d r where direct: "direct_establisher env le peer node config runtime 0 = Some (d, r)"
      "d \<le> 2 * length (composed_tiers (cfg_disable config Relayed) runtime) * per_method_timeout config"
    using direct_establisher_total [of env le peer node config runtime 0] by auto
  show ?thesis
  proof (cases "rt_relayed runtime")
    case None
    with direct show ?thesis
      by (cases r) (simp_all add: connect_fast_def connect_fast_with_def await_ok_def await_def ready_def)
  next
    case (Some rel)
    with direct show ?thesis
      by (cases r; cases "relayed_establisher env peer node config rel 0")
        (auto simp: connect_fast_def connect_fast_with_eq first_usable_def landing_def Let_def split: sum.splits)
  qed
qed

text \<open>Both happen: a relay whose tunnel never opens, and a peer without addresses.\<close>

lemma connect_fast_can_hang:
  "connect_fast False (\<lambda>_. fast_env) (\<lambda>_. sample_ladder_env) (relay_only [2] []) [1] (nat_config_default [] ())
     (rt_set_relayed nat_runtime_default (demo_relay\<lparr> rd_open_dial_tunnel := \<lambda>_ _. None \<rparr>)) = None"
proof -
  let ?relay = "demo_relay\<lparr> rd_open_dial_tunnel := \<lambda>_ _. None \<rparr>" and ?c = "nat_config_default [] ()" and ?p = "relay_only [2] []"
  let ?rt = "rt_set_relayed nat_runtime_default ?relay"
  have "relayed_establisher (\<lambda>_. fast_env) ?p [1] ?c ?relay 0 = None"
    by (simp add: relayed_establisher_def mtls_dial_def dial_relayed_def fast_env_def peer_session_client_def mtls_dialer_new_def with_binding_policy_def
        with_relayed_dialer_def relay_only_def outcome_single_def await_ok_def await_def map_future_def Let_def)
  moreover have "\<exists>d e. direct_establisher (\<lambda>_. fast_env) (\<lambda>_. sample_ladder_env) ?p [1] ?c ?rt 0 = Some (d, Err e)"
    by (simp add: direct_establisher_def compose_ladder_def nat_config_default_def nat_runtime_default_def rt_set_relayed_def is_enabled_def
        connect_with_strategy_def strategy_loop_Cons try_method_def run_bounded_def timeout_def in_time_def direct_method_def direct_attempt_def relay_only_def
        ready_def sample_ladder_env_def Let_def)
  ultimately show ?thesis
    by (auto simp: connect_fast_def connect_fast_with_eq rt_set_relayed_def first_usable_def landing_def Let_def)
qed

text \<open>The relayed tier cannot be disabled: whether the configuration permits it or not, \<open>connect_fast\<close> does the same.\<close>

theorem connect_fast_ignores_disabled_relay:
  "connect_fast tie env le peer node (cfg_disable config Relayed) runtime = connect_fast tie env le peer node config runtime"
proof -
  have "direct_establisher env le peer node (cfg_disable config Relayed) runtime = direct_establisher env le peer node config runtime"
    by (rule ext) (simp add: direct_establisher_def cfg_disable_def Let_def)
  moreover have "relayed_establisher env peer node (cfg_disable config Relayed) = relayed_establisher env peer node config"
    by (intro ext) (simp add: relayed_establisher_def cfg_disable_def)
  ultimately show ?thesis by (simp add: connect_fast_def cfg_disable_def)
qed

end
