(* ===== verification/Relayed_Pipe.thy ===== *)
theory Relayed_Pipe imports Tunnel_Stream begin

text \<open>
  Two nodes, a relay between them and a circuit from end to end: \<open>RelayTunnelStream\<close> (\<open>src/src/tunnel.rs\<close>) over
  \<open>RelayTunnel::send\<close> and \<open>route_relayed\<close> (\<open>src/src/relay.rs\<close>), forwarded in order as
  \<open>loopback_reservation_pair\<close> does.

  The system keeps, beside the code's state of both nodes, the bytes each side's writes accepted and the bytes
  its reads handed out.  It starts where a dial ends: one node opened a tunnel and wrote its ClientHello, the
  relay forwarded it, and the other node's accept path took the circuit.
\<close>

section \<open>The two reservations\<close>

definition loopback_reservation_pair :: "string \<Rightarrow> string \<Rightarrow> node \<times> node" where
  "loopback_reservation_pair a_id b_id =
    (let a = relay_status_new; b = relay_status_new;
         a = set_connected a 1; b = set_connected b 1;
         a = set_transport a a_id DEFAULT_NETWORK_ID []; b = set_transport b b_id DEFAULT_NETWORK_ID []
     in (a, b))"

record duplex =
  dx_nodes :: "string \<Rightarrow> node"
  dx_streams :: "string \<Rightarrow> tunnel_stream"
  dx_sent :: "string \<Rightarrow> bytes"
  dx_got :: "string \<Rightarrow> bytes"

text \<open>The dial of \<open>a\<close> with its opening flight, the forward, and the tunnel handed to \<open>b\<close>'s accept consumer.\<close>

definition dialed_pair :: "nat \<Rightarrow> string \<Rightarrow> string \<Rightarrow> string \<Rightarrow> bytes \<Rightarrow> duplex option" where
  "dialed_pair now a b network hello =
    (case loopback_reservation_pair a b of
       (sa, sb) \<Rightarrow>
         let sb = enable_accept queue_env sb in
         (case open_tunnel queue_env now sa b network of
            (Inl _, sa) \<Rightarrow> None
          | (Inr tu, sa) \<Rightarrow>
              let st = tunnel_stream_new tu in
              (case poll_write queue_env sa st hello of
                 (r, sa) \<Rightarrow>
                   (case rs_outbound sa of
                      Some [RelayGossipMessage src dst payload seq] \<Rightarrow>
                        let sb = route_relayed queue_env now sb src payload in
                        (case rs_inbound_accept sb of
                           Some (cap, [tb]) \<Rightarrow>
                             Some \<lparr> dx_nodes = (\<lambda>_. relay_status_new)(a := sa\<lparr> rs_outbound := Some [] \<rparr>, b := sb\<lparr> rs_inbound_accept := Some (cap, []) \<rparr>),
                               dx_streams = (\<lambda>_. st)(b := tunnel_stream_new tb),
                               dx_sent = (\<lambda>_. [])(a := payload), dx_got = (\<lambda>_. []) \<rparr>
                         | _ \<Rightarrow> None)
                    | _ \<Rightarrow> None))))"

section \<open>Steps\<close>

definition accepted_bytes :: "(io_error, nat) result poll \<Rightarrow> bytes \<Rightarrow> bytes" where
  "accepted_bytes r buf = (case r of Ready (Inr n) \<Rightarrow> take n buf | _ \<Rightarrow> [])"

definition set_inbound :: "string \<Rightarrow> nat \<times> bytes list \<Rightarrow> node \<Rightarrow> node" where
  "set_inbound peer c s = (case circuit_holder s peer of None \<Rightarrow> s | Some i \<Rightarrow> s\<lparr> rs_chans := (rs_chans s)(i \<mapsto> c) \<rparr>)"

definition has_room :: "node \<Rightarrow> string \<Rightarrow> bool" where
  "has_room s from = (case inbound_queue s from of None \<Rightarrow> False | Some (cap, q) \<Rightarrow> length q < cap)"

text \<open>A side writes a buffer, the relay forwards the oldest queued frame of a side, a side reads into a buffer.\<close>

inductive duplex_step :: "string \<Rightarrow> string \<Rightarrow> duplex \<Rightarrow> duplex \<Rightarrow> bool" for a b where
  writes: "(me, peer) \<in> {(a, b), (b, a)} \<Longrightarrow> poll_write queue_env (dx_nodes g me) (dx_streams g me) buf = (r, s) \<Longrightarrow>
    duplex_step a b g (g\<lparr> dx_nodes := (dx_nodes g)(me := s), dx_sent := (dx_sent g)(me := dx_sent g me @ accepted_bytes r buf) \<rparr>)"
| forwards: "(me, peer) \<in> {(a, b), (b, a)} \<Longrightarrow> rs_outbound (dx_nodes g me) = Some (RelayGossipMessage src dst p n # rest) \<Longrightarrow>
    takes (dx_nodes g peer) src p \<Longrightarrow> has_room (dx_nodes g peer) src \<Longrightarrow>
    duplex_step a b g (g\<lparr> dx_nodes := (dx_nodes g)(me := (dx_nodes g me)\<lparr> rs_outbound := Some rest \<rparr>,
      peer := route_relayed queue_env now (dx_nodes g peer) src p) \<rparr>)"
| reads: "(me, peer) \<in> {(a, b), (b, a)} \<Longrightarrow> inbound_queue (dx_nodes g me) peer = Some c \<Longrightarrow>
    poll_read (queue_recv False) room (dx_streams g me) c = (r, st, c') \<Longrightarrow>
    duplex_step a b g (g\<lparr> dx_nodes := (dx_nodes g)(me := set_inbound peer c' (dx_nodes g me)),
      dx_streams := (dx_streams g)(me := st), dx_got := (dx_got g)(me := dx_got g me @ read_bytes r) \<rparr>)"

section \<open>The invariant\<close>

fun frame_payload :: "relay_message \<Rightarrow> bytes" where
  "frame_payload (RelayGossipMessage _ _ p _) = p"
| "frame_payload _ = []"

definition in_flight :: "node \<Rightarrow> bytes" where
  "in_flight s = (case rs_outbound s of None \<Rightarrow> [] | Some q \<Rightarrow> concat (map frame_payload q))"

definition waiting :: "duplex \<Rightarrow> string \<Rightarrow> string \<Rightarrow> bytes" where
  "waiting g me peer = unread snd (dx_streams g me) (the (inbound_queue (dx_nodes g me) peer))"

text \<open>One side: its tunnel is the circuit to the peer, and its queued frames are its own for the peer.\<close>

definition side_ok :: "string \<Rightarrow> string \<Rightarrow> node \<Rightarrow> tunnel_stream \<Rightarrow> bool" where
  "side_ok me peer s st \<longleftrightarrow> rs_local_peer_id s = Some me \<and> tu_target (ts_tunnel st) = peer
     \<and> circuit_holder s peer = Some (tu_id (ts_tunnel st)) \<and> inbound_queue s peer \<noteq> None
     \<and> (\<exists>out. rs_outbound s = Some out \<and> list_all (\<lambda>m. \<exists>p n. m = RelayGossipMessage me peer p n) out)"

text \<open>Of one direction: every byte accepted is read, or waits at the reader, or is in flight, in this order.\<close>

definition fifo :: "string \<Rightarrow> string \<Rightarrow> duplex \<Rightarrow> bool" where
  "fifo me peer g \<longleftrightarrow> dx_sent g me = dx_got g peer @ waiting g peer me @ in_flight (dx_nodes g me)"

definition duplex_ok :: "string \<Rightarrow> string \<Rightarrow> duplex \<Rightarrow> bool" where
  "duplex_ok a b g \<longleftrightarrow> a \<noteq> b \<and> side_ok a b (dx_nodes g a) (dx_streams g a) \<and> side_ok b a (dx_nodes g b) (dx_streams g b)
     \<and> fifo a b g \<and> fifo b a g"

lemma duplex_ok_swap: "duplex_ok a b g \<longleftrightarrow> duplex_ok b a g"
  by (auto simp: duplex_ok_def)

lemma duplex_ok_pair:
  assumes "duplex_ok a b g" "(me, peer) \<in> {(a, b), (b, a)}"
  shows "duplex_ok me peer g" "duplex_ok me peer h \<Longrightarrow> duplex_ok a b h"
  using assms duplex_ok_swap by auto

lemma circuit_holder_cong: "rs_tunnels t = rs_tunnels s \<Longrightarrow> circuit_holder t = circuit_holder s"
  by (rule ext) (simp add: circuit_holder_def circuit_def)

lemma inbound_queue_cong: "rs_tunnels t = rs_tunnels s \<Longrightarrow> rs_chans t = rs_chans s \<Longrightarrow> inbound_queue t = inbound_queue s"
  by (rule ext) (simp add: inbound_queue_def circuit_holder_cong [of t s] split: option.split)

text \<open>A write appends its accepted bytes to what is in flight.\<close>

lemma poll_write_side:
  assumes ok: "side_ok me peer s st" and w: "poll_write queue_env s st buf = (r, t)"
  shows "side_ok me peer t st" "in_flight t = in_flight s @ accepted_bytes r buf"
    "circuit_holder t = circuit_holder s" "inbound_queue t = inbound_queue s"
proof -
  let ?p = "take (min (length buf) MAX_RELAY_PAYLOAD) buf"
  obtain out where out: "rs_outbound s = Some out" "list_all (\<lambda>m. \<exists>p n. m = RelayGossipMessage me peer p n) out"
    and me: "rs_local_peer_id s = Some me" and tu: "tu_target (ts_tunnel st) = peer"
    using ok by (auto simp: side_ok_def)
  have "tunnel_send queue_env s (ts_tunnel st) ?p = (Ok (), s\<lparr> rs_relay_seq := rs_relay_seq s + 1,
       rs_outbound := Some (out @ [RelayGossipMessage me peer ?p (rs_relay_seq s)]) \<rparr>)"
    using tunnel_send_Ok [OF me out(1), of ?p "ts_tunnel st"] by (simp add: tu)
  then have r: "r = Ready (Ok (min (length buf) MAX_RELAY_PAYLOAD))"
    and t: "t = s\<lparr> rs_relay_seq := rs_relay_seq s + 1, rs_outbound := Some (out @ [RelayGossipMessage me peer ?p (rs_relay_seq s)]) \<rparr>"
    using w by (auto simp: poll_write_def Let_def)
  show h: "circuit_holder t = circuit_holder s" and q: "inbound_queue t = inbound_queue s"
    by (rule circuit_holder_cong inbound_queue_cong; simp add: t)+
  show "side_ok me peer t st" using ok out unfolding side_ok_def h q by (simp add: t)
  show "in_flight t = in_flight s @ accepted_bytes r buf" by (simp add: in_flight_def t out(1) r accepted_bytes_def)
qed

lemma poll_read_tunnel: "poll_read recv room st c = (r, st', c') \<Longrightarrow> ts_tunnel st' = ts_tunnel st"
  by (auto simp: poll_read_def put_carry_def Let_def split: if_splits prod.splits poll.splits option.splits)

lemma set_inbound_simps:
  assumes "circuit_holder s peer = Some i" "t = set_inbound peer c s"
  shows "rs_local_peer_id t = rs_local_peer_id s" "rs_outbound t = rs_outbound s" "circuit_holder t = circuit_holder s"
    "inbound_queue t peer = Some c" "in_flight t = in_flight s"
proof -
  show h: "circuit_holder t = circuit_holder s" by (rule circuit_holder_cong) (simp add: assms set_inbound_def)
  have "rs_chans t i = Some c" by (simp add: assms set_inbound_def)
  then show "inbound_queue t peer = Some c" by (simp add: inbound_queue_def h assms(1))
qed (simp_all add: assms set_inbound_def in_flight_def)

lemma unread_snoc: "unread snd st (cap, q @ [p]) = unread snd st (cap, q) @ p"
  by (simp add: unread_def)

lemma duplex_write:
  assumes ok: "duplex_ok me peer g" and w: "poll_write queue_env (dx_nodes g me) (dx_streams g me) buf = (r, s)"
  shows "duplex_ok me peer (g\<lparr> dx_nodes := (dx_nodes g)(me := s), dx_sent := (dx_sent g)(me := dx_sent g me @ accepted_bytes r buf) \<rparr>)"
proof -
  have "side_ok me peer (dx_nodes g me) (dx_streams g me)" "me \<noteq> peer" using ok by (simp_all add: duplex_ok_def)
  note p = poll_write_side [OF this(1) w] and neq = this(2)
  from ok neq show ?thesis by (auto simp: duplex_ok_def fifo_def waiting_def p)
qed

lemma duplex_read:
  assumes ok: "duplex_ok me peer g" and c: "inbound_queue (dx_nodes g me) peer = Some c"
    and r: "poll_read (queue_recv False) room (dx_streams g me) c = (r, st, c')"
  shows "duplex_ok me peer (g\<lparr> dx_nodes := (dx_nodes g)(me := set_inbound peer c' (dx_nodes g me)),
      dx_streams := (dx_streams g)(me := st), dx_got := (dx_got g)(me := dx_got g me @ read_bytes r) \<rparr>)"
proof -
  have side: "side_ok me peer (dx_nodes g me) (dx_streams g me)" "me \<noteq> peer" using ok by (simp_all add: duplex_ok_def)
  then have h: "circuit_holder (dx_nodes g me) peer = Some (tu_id (ts_tunnel (dx_streams g me)))" by (simp add: side_ok_def)
  note s = set_inbound_simps [OF h refl, of c'] and tu = poll_read_tunnel [OF r]
  have "unread snd (dx_streams g me) c = read_bytes r @ unread snd st c'" by (rule queue.poll_read_unread [OF r])
  with ok side c show ?thesis by (auto simp: duplex_ok_def fifo_def waiting_def side_ok_def s tu)
qed

lemma duplex_forward:
  assumes ok: "duplex_ok me peer g" and out: "rs_outbound (dx_nodes g me) = Some (RelayGossipMessage src dst p n # rest)"
    and takes: "takes (dx_nodes g peer) src p" and room: "has_room (dx_nodes g peer) src"
  shows "duplex_ok me peer (g\<lparr> dx_nodes := (dx_nodes g)(me := (dx_nodes g me)\<lparr> rs_outbound := Some rest \<rparr>,
      peer := route_relayed queue_env now (dx_nodes g peer) src p) \<rparr>)"
proof -
  let ?s = "dx_nodes g me" and ?t = "route_relayed queue_env now (dx_nodes g peer) me p"
  have side: "side_ok me peer ?s (dx_streams g me)" "side_ok peer me (dx_nodes g peer) (dx_streams g peer)" "me \<noteq> peer"
    using ok by (simp_all add: duplex_ok_def)
  have src: "src = me" using side(1) out by (simp add: side_ok_def)
  obtain cap q where q: "inbound_queue (dx_nodes g peer) me = Some (cap, q)" "length q < cap"
    using room by (auto simp: has_room_def src split: option.splits)
  note t = route_taken [OF takes [unfolded src] q(1) refl, of now]
  have h: "circuit_holder (?s\<lparr> rs_outbound := Some rest \<rparr>) = circuit_holder ?s"
    and i: "inbound_queue (?s\<lparr> rs_outbound := Some rest \<rparr>) = inbound_queue ?s"
    by (rule circuit_holder_cong inbound_queue_cong; simp)+
  have f: "in_flight ?s = p @ in_flight (?s\<lparr> rs_outbound := Some rest \<rparr>)" by (simp add: in_flight_def out)
  have same: "in_flight ?t = in_flight (dx_nodes g peer)" by (simp add: in_flight_def t)
  from ok side q show ?thesis
    by (auto simp: duplex_ok_def fifo_def waiting_def side_ok_def src t h i f same out unread_snoc)
qed

lemma duplex_ok_step: "duplex_ok a b g \<Longrightarrow> duplex_step a b g h \<Longrightarrow> duplex_ok a b h"
proof (erule duplex_step.cases, goal_cases)
  case (1 me peer g buf r s)
  then show ?case using duplex_ok_pair [of a b g me peer] duplex_write by blast
next
  case (2 me peer g src dst p n rest now)
  then show ?case using duplex_ok_pair [of a b g me peer] duplex_forward by blast
next
  case (3 me peer g c room r st c')
  then show ?case using duplex_ok_pair [of a b g me peer] duplex_read by blast
qed

section \<open>Where a dial ends\<close>

lemma loopback_simps:
  assumes "loopback_reservation_pair a b = (sa, sb)"
  shows "rs_local_peer_id sa = Some a" "rs_local_peer_id sb = Some b" "rs_outbound sa = Some []" "rs_outbound sb = Some []"
    "rs_tunnels sa = []" "rs_tunnels sb = []" "relay_transport_ready sa" "rs_next_tunnel_id sb = 0"
    "rs_local_network_id sb = Some DEFAULT_NETWORK_ID"
  using assms by (auto simp: loopback_reservation_pair_def Let_def set_transport_def set_connected_def transition_to_def relay_status_new_def
    relay_transport_ready_def is_connected_def state_def from_u8_def)

text \<open>The tunnel the opening handshake of a fresh peer stands up, with the handshake in its queue.\<close>

lemma route_introduced:
  assumes s: "rs_local_peer_id s = Some me" "rs_tunnels s = []" and neq: "me \<noteq> from"
    and hello: "is_tls_client_hello p" "length p \<le> MAX_RELAY_PAYLOAD"
    and t: "t = route_relayed queue_env now (enable_accept queue_env s) from p"
  shows "\<exists>tb. rs_inbound_accept t = Some (INBOUND_ACCEPT_CAP, [tb]) \<and> tu_target tb = from \<and> circuit_holder t from = Some (tu_id tb)
    \<and> circuit_role t from = Some Server \<and> inbound_queue t from = Some (RELAY_TUNNEL_INBOUND_CAP, [p])
    \<and> rs_local_peer_id t = Some me \<and> rs_outbound t = rs_outbound s"
proof -
  let ?s = "enable_accept queue_env s"
  have e: "rs_inbound_accept ?s = Some (INBOUND_ACCEPT_CAP, [])" "rs_local_peer_id ?s = Some me" "rs_tunnels ?s = []"
      "rs_outbound ?s = rs_outbound s" "circuit ?s from = None"
    using s by (simp_all add: enable_accept_def queue_env_def circuit_def)
  have adm: "admitted ?s from p" using neq hello by (simp add: admitted_def or_empty_def e)
  have intro: "introduces queue_env ?s from p"
    using hello by (simp add: introduces_def e MAX_RELAY_TUNNELS_def INBOUND_ACCEPT_CAP_def) (simp add: queue_env_def)
  have t': "t = accept_introduced queue_env now ?s from p"
    using adm e(5) unfolding t by (cases rule: route_relayed_cases [of ?s "from" p queue_env now]) auto
  show ?thesis
  proof (cases rule: accept_introduced_cases [of queue_env now ?s "from" p])
    case ignored
    with intro show ?thesis by simp
  next
    case (registered tb s' tx d)
    note ins = registered(5)
    have tx: "tx = (INBOUND_ACCEPT_CAP, [])" using registered(2) by (simp add: e)
    have acc: "accept_try_send queue_env tx tb = Some (INBOUND_ACCEPT_CAP, [tb])"
      by (simp add: tx queue_env_def INBOUND_ACCEPT_CAP_def)
    have td: "t = d\<lparr> rs_inbound_accept := Some (INBOUND_ACCEPT_CAP, [tb]) \<rparr>" by (simp add: t' registered(9) acc)
    have c: "circuit t = (circuit ?s)(from \<mapsto> server_entry now ?s)" by (simp add: td circuit_inbound registered(8))
    have "rs_chans s' (rs_next_tunnel_id ?s) = Some (RELAY_TUNNEL_INBOUND_CAP, [])"
      using ins by (auto simp: insert_entry_def Let_def queue_env_def)
    then have ch: "rs_chans t (rs_next_tunnel_id ?s) = Some (RELAY_TUNNEL_INBOUND_CAP, [p])"
      by (simp add: td registered(7) deliver_def) (simp add: queue_env_def RELAY_TUNNEL_INBOUND_CAP_def)
    have h: "circuit_holder t from = Some (rs_next_tunnel_id ?s)" by (simp add: circuit_holder_def c server_entry_def)
    show ?thesis
    proof (intro exI [of _ tb] conjI)
      show "inbound_queue t from = Some (RELAY_TUNNEL_INBOUND_CAP, [p])" by (simp add: inbound_queue_def h ch)
      show "circuit_role t from = Some Server" by (simp add: circuit_role_def c server_entry_def)
      show "circuit_holder t from = Some (tu_id tb)" by (simp add: h registered(6))
    qed (simp_all add: td registered(6,7) insert_entry_simps [OF ins] e)
  qed
qed

text \<open>The dial of a fresh pair: the tunnel, and the handshake as the only queued frame.\<close>

lemma dial_fresh:
  assumes s: "rs_local_peer_id s = Some me" "rs_outbound s = Some []" "rs_tunnels s = []" "relay_transport_ready s"
    and neq: "me \<noteq> peer" and p: "length p \<le> MAX_RELAY_PAYLOAD"
  obtains tu s1 s2 where "open_tunnel queue_env now s peer network = (Ok tu, s1)"
    "poll_write queue_env s1 (tunnel_stream_new tu) p = (Ready (Ok (length p)), s2)"
    "rs_outbound s2 = Some [RelayGossipMessage me peer p (rs_relay_seq s)]" "rs_local_peer_id s2 = Some me" "tu_target tu = peer"
    "circuit_holder s2 peer = Some (tu_id tu)" "circuit_role s2 peer = Some Client"
    "inbound_queue s2 peer = Some (RELAY_TUNNEL_INBOUND_CAP, [])"
proof (cases rule: open_tunnel_cases [of queue_env now s peer network])
  case (refused m)
  with s neq show ?thesis by (auto simp: circuit_def or_empty_def)
next
  case (opened tu s1)
  note ins = opened(2)
  let ?s2 = "s1\<lparr> rs_relay_seq := rs_relay_seq s1 + 1, rs_outbound := Some [RelayGossipMessage me peer p (rs_relay_seq s)] \<rparr>"
  have tu: "tu_target tu = peer" "rs_local_peer_id s1 = Some me" "rs_outbound s1 = Some []" "rs_relay_seq s1 = rs_relay_seq s"
    by (simp_all add: insert_entry_simps [OF ins] s)
  have "tunnel_send queue_env s1 tu p = (Ok (), ?s2)" using tunnel_send_Ok [OF tu(2,3) p, of tu] by (simp add: tu)
  then have w: "poll_write queue_env s1 (tunnel_stream_new tu) p = (Ready (Ok (length p)), ?s2)"
    using p by (simp add: poll_write_def tunnel_stream_new_def Let_def min_absorb1)
  have c: "circuit ?s2 = (circuit s)(peer \<mapsto> \<lparr> te_role = Client, te_id = rs_next_tunnel_id s, te_last_activity = now \<rparr>)"
    using circuit_insert_entry [OF ins] circuit_cong [of ?s2 s1] by simp
  have "rs_chans s1 (rs_next_tunnel_id s) = Some (RELAY_TUNNEL_INBOUND_CAP, [])"
    using ins by (auto simp: insert_entry_def Let_def queue_env_def)
  moreover have h: "circuit_holder ?s2 peer = Some (rs_next_tunnel_id s)" by (simp add: circuit_holder_def c)
  ultimately have "inbound_queue ?s2 peer = Some (RELAY_TUNNEL_INBOUND_CAP, [])" by (simp add: inbound_queue_def)
  moreover have "circuit_role ?s2 peer = Some Client" by (simp add: circuit_role_def c)
  ultimately show ?thesis using h tu by (intro that [OF opened(1) w]) (simp_all add: insert_entry_simps [OF ins])
qed

lemma dialed_pair_ok:
  assumes neq: "a \<noteq> b" and hello: "is_tls_client_hello hello" "length hello \<le> MAX_RELAY_PAYLOAD"
  obtains g where "dialed_pair now a b network hello = Some g" "duplex_ok a b g" "dx_sent g a = hello" "dx_sent g b = []"
    "circuit_role (dx_nodes g a) b = Some Client" "circuit_role (dx_nodes g b) a = Some Server"
    "inbound_queue (dx_nodes g b) a = Some (RELAY_TUNNEL_INBOUND_CAP, [hello])"
proof -
  obtain sa sb where pair: "loopback_reservation_pair a b = (sa, sb)" by (rule prod.exhaust)
  note s = loopback_simps [OF pair]
  obtain tu s1 s2 where d: "open_tunnel queue_env now sa b network = (Ok tu, s1)"
    "poll_write queue_env s1 (tunnel_stream_new tu) hello = (Ready (Ok (length hello)), s2)"
    "rs_outbound s2 = Some [RelayGossipMessage a b hello (rs_relay_seq sa)]" "rs_local_peer_id s2 = Some a" "tu_target tu = b"
    "circuit_holder s2 b = Some (tu_id tu)" "circuit_role s2 b = Some Client"
    "inbound_queue s2 b = Some (RELAY_TUNNEL_INBOUND_CAP, [])"
    by (rule dial_fresh [OF s(1,3,5,7) neq hello(2)])
  let ?t = "route_relayed queue_env now (enable_accept queue_env sb) a hello"
  obtain tb where r: "rs_inbound_accept ?t = Some (INBOUND_ACCEPT_CAP, [tb])" "tu_target tb = a" "circuit_holder ?t a = Some (tu_id tb)"
    "circuit_role ?t a = Some Server" "inbound_queue ?t a = Some (RELAY_TUNNEL_INBOUND_CAP, [hello])"
    "rs_local_peer_id ?t = Some b" "rs_outbound ?t = rs_outbound sb"
    using route_introduced [OF s(2,6) neq [symmetric] hello refl, of now] by blast
  let ?u = "s2\<lparr> rs_outbound := Some [] \<rparr>" and ?v = "?t\<lparr> rs_inbound_accept := Some (INBOUND_ACCEPT_CAP, []) \<rparr>"
  define g where "g = \<lparr> dx_nodes = (\<lambda>_. relay_status_new)(a := ?u, b := ?v), dx_streams = (\<lambda>_. tunnel_stream_new tu)(b := tunnel_stream_new tb),
      dx_sent = (\<lambda>_. [])(a := hello), dx_got = (\<lambda>_. []) \<rparr>"
  have g: "dialed_pair now a b network hello = Some g"
    by (simp add: dialed_pair_def pair d r Let_def g_def)
  have u: "circuit_holder ?u = circuit_holder s2" "inbound_queue ?u = inbound_queue s2" "circuit_role ?u = circuit_role s2"
      "circuit_holder ?v = circuit_holder ?t" "inbound_queue ?v = inbound_queue ?t" "circuit_role ?v = circuit_role ?t"
    by (simp_all add: circuit_holder_cong [of ?u s2] circuit_holder_cong [of ?v ?t] inbound_queue_cong [of ?u s2] inbound_queue_cong [of ?v ?t]
        circuit_role_def fun_eq_iff circuit_cong [of ?u s2] circuit_cong [of ?v ?t])
  have "duplex_ok a b g"
    using neq by (simp add: duplex_ok_def side_ok_def fifo_def waiting_def g_def u d r s in_flight_def unread_def tunnel_stream_new_def)
  with g neq show ?thesis by (intro that [of g]) (simp_all add: g_def u d r)
qed

text \<open>The dials from which the system runs.\<close>

definition dialed_start :: "string \<Rightarrow> string \<Rightarrow> duplex \<Rightarrow> bool" where
  "dialed_start a b g \<longleftrightarrow> a \<noteq> b \<and> (\<exists>now network hello. dialed_pair now a b network hello = Some g
     \<and> is_tls_client_hello hello \<and> length hello \<le> MAX_RELAY_PAYLOAD)"

interpretation pipe: step_invariant "dialed_start a b" "duplex_step a b" "duplex_ok a b"
proof unfold_locales
  fix g assume "dialed_start a b g"
  then obtain now network hello where d: "a \<noteq> b" "dialed_pair now a b network hello = Some g"
    "is_tls_client_hello hello" "length hello \<le> MAX_RELAY_PAYLOAD" by (auto simp: dialed_start_def)
  from dialed_pair_ok [OF d(1,3,4), of now network] d(2) show "duplex_ok a b g" by fastforce
qed (rule duplex_ok_step)

section \<open>Properties\<close>

text \<open>C4.  A relayed circuit is two byte pipes: from the dial with its opening handshake on, through every sequence of writes,
  forwards in order and reads of both sides, the bytes a side's writes accepted are exactly those the other side
  has read, then those waiting there, then those in flight: nothing is lost, repeated, reordered or mixed between
  the directions, as long as the relay forwards frames the circuit's role takes into queues with room.\<close>

theorem relayed_circuit_is_fifo:
  assumes "a \<noteq> b" "is_tls_client_hello hello" "length hello \<le> MAX_RELAY_PAYLOAD"
  shows "\<exists>g. dialed_pair now a b network hello = Some g \<and> dx_sent g a = hello \<and> dx_sent g b = []
    \<and> circuit_role (dx_nodes g a) b = Some Client \<and> circuit_role (dx_nodes g b) a = Some Server
    \<and> (\<forall>h. (duplex_step a b)\<^sup>*\<^sup>* g h \<longrightarrow>
         dx_sent h a = dx_got h b @ waiting h b a @ in_flight (dx_nodes h a) \<and>
         dx_sent h b = dx_got h a @ waiting h a b @ in_flight (dx_nodes h b))"
proof -
  obtain g where g: "dialed_pair now a b network hello = Some g" "dx_sent g a = hello" "dx_sent g b = []"
    "circuit_role (dx_nodes g a) b = Some Client" "circuit_role (dx_nodes g b) a = Some Server"
    by (rule dialed_pair_ok [OF assms, of now network])
  then have "dialed_start a b g" using assms by (auto simp: dialed_start_def)
  then have "duplex_ok a b h" if "(duplex_step a b)\<^sup>*\<^sup>* g h" for h using that by (rule pipe.inv_reachable)
  with g show ?thesis unfolding duplex_ok_def fifo_def by blast
qed

theorem relayed_circuit_is_fifo_witness:
  "\<exists>g h. dialed_pair 0 ''a'' ''b'' ''net'' client_hello = Some g \<and> (duplex_step ''a'' ''b'')\<^sup>*\<^sup>* g h
     \<and> dx_got h ''b'' = client_hello \<and> dx_sent h ''a'' = dx_got h ''b'' @ waiting h ''b'' ''a'' @ in_flight (dx_nodes h ''a'')"
proof -
  obtain g where g: "dialed_pair 0 ''a'' ''b'' ''net'' client_hello = Some g"
    "inbound_queue (dx_nodes g ''b'') ''a'' = Some (RELAY_TUNNEL_INBOUND_CAP, [client_hello])"
    by (rule dialed_pair_ok [of "''a''" "''b''" client_hello 0 "''net''"]) (simp_all add: MAX_RELAY_PAYLOAD_def)
  have st: "ts_read_carry (dx_streams g ''b'') = []" "dx_got g ''b'' = []" 
    using g(1) by (auto simp: dialed_pair_def tunnel_stream_new_def Let_def split: prod.splits sum.splits option.splits list.splits relay_message.splits)
  obtain r t c where p: "poll_read (queue_recv False) 10 (dx_streams g ''b'') (RELAY_TUNNEL_INBOUND_CAP, [client_hello]) = (r, t, c)"
    by (metis prod_cases3)
  then have r: "read_bytes r = client_hello"
    using st by (auto simp: poll_read_def queue_recv_def put_carry_def Let_def read_bytes_def)
  let ?h = "g\<lparr> dx_nodes := (dx_nodes g)(''b'' := set_inbound ''a'' c (dx_nodes g ''b'')), dx_streams := (dx_streams g)(''b'' := t),
      dx_got := (dx_got g)(''b'' := dx_got g ''b'' @ read_bytes r) \<rparr>"
  have "duplex_step ''a'' ''b'' g ?h" by (rule duplex_step.reads [OF _ g(2) p]) simp
  then have step: "(duplex_step ''a'' ''b'')\<^sup>*\<^sup>* g ?h" by (rule r_into_rtranclp)
  have got: "dx_got ?h ''b'' = client_hello" by (simp add: st r)
  have "dx_sent ?h ''a'' = dx_got ?h ''b'' @ waiting ?h ''b'' ''a'' @ in_flight (dx_nodes ?h ''a'')"
    using relayed_circuit_is_fifo [of "''a''" "''b''" client_hello 0 "''net''"] step g(1) by (auto simp: MAX_RELAY_PAYLOAD_def)
  with g(1) step got show ?thesis by blast
qed

text \<open>C39.  A full queue punches a hole: when a frame meets a full inbound queue it is dropped, and a reader that reads on gets the
  queued bytes and then the next frame's, each read a success; the stream reports neither the gap nor an error.\<close>

theorem overflow_leaves_hole:
  assumes "takes s from p" "takes s from p'" "inbound_queue s from = Some (length q, q)" "q \<noteq> []"
    and "t = route_relayed queue_env now s from p"
    and "poll_read (queue_recv closed) room (tunnel_stream_new tu) (the (inbound_queue t from)) = (r, st, c)"
    and "u = route_relayed queue_env later (set_inbound from c t) from p'"
  shows "r \<noteq> Pending \<and> read_bytes r @ unread snd st (the (inbound_queue u from)) = concat q @ p'"
proof -
  note t = route_taken [OF assms(1,3,5)]
  have q: "inbound_queue t from = Some (length q, q)" by (simp add: t)
  obtain i where h: "circuit_holder t from = Some i"
    using assms(3) by (auto simp: t inbound_queue_def split: option.splits)
  note v = set_inbound_simps [OF h refl, of c]
  have c: "c = (length q, tl q)" "r \<noteq> Pending"
    using assms(4,6) by (auto simp: q poll_read_def tunnel_stream_new_def queue_recv_def split: list.splits prod.splits)
  have "circuit_role (set_inbound from c t) = circuit_role t"
    using circuit_cong [of "set_inbound from c t" t] by (simp add: circuit_role_def fun_eq_iff set_inbound_def split: option.splits)
  with assms(2) have "takes (set_inbound from c t) from p'" by (simp add: takes_def admitted_def v t)
  from route_taken [OF this _ assms(7), of "length q" "tl q"] v(4) c(1) assms(4)
  have "inbound_queue u from = Some (length q, tl q @ [p'])" by simp
  moreover have "unread snd (tunnel_stream_new tu) (the (inbound_queue t from)) = read_bytes r @ unread snd st c"
    by (rule queue.poll_read_unread [OF assms(6)])
  ultimately show ?thesis using c by (simp add: q unread_snoc) (simp add: unread_def tunnel_stream_new_def)
qed

theorem overflow_leaves_hole_witness:
  "\<exists>s tu. inbound_queue s ''a'' = Some (1, [[1]]) \<and>
    (case poll_read (queue_recv False) 5 (tunnel_stream_new tu) (the (inbound_queue (route_relayed queue_env 0 s ''a'' [2]) ''a'')) of
       (r, st, c) \<Rightarrow> read_bytes r @ unread snd st
         (the (inbound_queue (route_relayed queue_env 1 (set_inbound ''a'' c (route_relayed queue_env 0 s ''a'' [2])) ''a'' [3]) ''a'')) = [1, 3])"
proof -
  obtain g where g: "duplex_ok ''a'' ''b'' g" "circuit_role (dx_nodes g ''b'') ''a'' = Some Server"
    by (rule dialed_pair_ok [of "''a''" "''b''" client_hello 0 "''net''"]) (simp_all add: MAX_RELAY_PAYLOAD_def)
  let ?n = "dx_nodes g ''b''" let ?tu = "ts_tunnel (dx_streams g ''b'')"
  define s where "s = set_inbound ''a'' (1, [[1]]) ?n"
  have side: "circuit_holder ?n ''a'' = Some (tu_id ?tu)" "rs_local_peer_id ?n = Some ''b''"
    using g(1) by (simp_all add: duplex_ok_def side_ok_def)
  note s = set_inbound_simps [OF side(1) s_def]
  have "circuit s = circuit ?n" by (rule circuit_cong) (simp add: s_def set_inbound_def split: option.split)
  then have "circuit_role s ''a'' = Some Server" using g(2) by (simp add: circuit_role_def)
  then have takes: "takes s ''a'' [x]" for x
    by (simp add: takes_def admitted_def s side or_empty_def MAX_RELAY_PAYLOAD_def)
  obtain r st c where p: "poll_read (queue_recv False) 5 (tunnel_stream_new ?tu)
      (the (inbound_queue (route_relayed queue_env 0 s ''a'' [2]) ''a'')) = (r, st, c)"
    by (metis prod_cases3)
  have q: "inbound_queue s ''a'' = Some (length [[1 :: u8]], [[1]])" by (simp add: s)
  from overflow_leaves_hole [OF takes [of 2] takes [of 3] q _ refl p refl, where later = 1] show ?thesis
    using s(4) by (intro exI [of _ s] exI [of _ ?tu]) (simp add: p)
qed

end
