(* ===== verification/Prologue_Stream.thy ===== *)
theory Prologue_Stream imports Framing begin

text \<open>
  A paged prologue on one stream (\<open>src/src/mux.rs\<close>): the frames that carry the pages of
  \<open>RangeFrame::split_chunk_lens_pages\<close>, written with \<open>RangeFrame::encode\<close>, read with \<open>RangeFrame::decode\<close> until
  its \<open>None\<close>, and fed to a \<open>ChunkLensAssembler\<close> as its documentation shows.
\<close>

section \<open>The reader\<close>

lemma decode_framed_opt_shrinks:
  "decode_framed_opt c r = (Ok (Some v), r') \<Longrightarrow> length (fst r') < length (fst r)"
  by (auto simp: decode_framed_opt_def decode_body_def read_exact_def Let_def split: if_splits prod.splits sum.splits)

function read_frames :: "range_frame json_codec \<Rightarrow> reader \<Rightarrow> (io_error, range_frame list) result \<times> reader" where
  "read_frames c r =
    (case range_decode c r of
       (Inl e, r) \<Rightarrow> (Err e, r)
     | (Inr None, r) \<Rightarrow> (Ok [], r)
     | (Inr (Some f), r) \<Rightarrow> (case read_frames c r of (Inl e, r) \<Rightarrow> (Err e, r) | (Inr fs, r) \<Rightarrow> (Ok (f # fs), r)))"
  by pat_completeness auto
termination
  by (relation "measure (\<lambda>(c, r). length (fst r))") (auto simp: range_decode_def dest!: decode_framed_opt_shrinks [OF sym])

declare read_frames.simps [simp del]

text \<open>The page a frame carries, if any; a missing offset is 0.\<close>

definition frame_page :: "range_frame \<Rightarrow> (u64 \<times> u64 list) option" where
  "frame_page f = map_option (\<lambda>page. (case rf_chunk_lens_offset f of Some k \<Rightarrow> k | None \<Rightarrow> 0, page)) (rf_chunk_lens f)"

definition frame_pages :: "range_frame list \<Rightarrow> (u64 \<times> u64 list) list" where
  "frame_pages = List.map_filter frame_page"

fun feed_frames :: "assembler \<Rightarrow> range_frame list \<Rightarrow> (chunk_lens_error, assembler) result may_panic" where
  "feed_frames self [] = Some (Ok self)"
| "feed_frames self (f # fs) =
    (case frame_page f of
       None \<Rightarrow> feed_frames self fs
     | Some (offset, page) \<Rightarrow>
         (case accept_page self offset page of
            None \<Rightarrow> None
          | Some (Inl e, self) \<Rightarrow> Some (Err e)
          | Some (Inr _, self) \<Rightarrow> feed_frames self fs))"

definition reassemble :: "(nat \<Rightarrow> bool) \<Rightarrow> nat \<Rightarrow> range_frame list \<Rightarrow> (chunk_lens_error, u64 list) result may_panic" where
  "reassemble reserve chunk_count frames =
    (case assembler_new reserve chunk_count of
       Inl e \<Rightarrow> Some (Err e)
     | Inr a \<Rightarrow>
         (case feed_frames a frames of
            None \<Rightarrow> None
          | Some (Inl e) \<Rightarrow> Some (Err e)
          | Some (Inr s) \<Rightarrow> Some (into_chunk_lens s)))"

text \<open>The sender's frames of a resource: each page on a frame that states the resource's identity.\<close>

definition page_frames :: "string \<Rightarrow> u64 \<Rightarrow> u64 list \<Rightarrow> range_frame list" where
  "page_frames root total_length xs =
    map (\<lambda>(offset, page). with_chunk_lens_page (with_identity (frame_data 0 []) root total_length (of_nat (length xs))) offset page)
      (split_chunk_lens_pages xs)"

section \<open>A whole stream, and a truncated one\<close>

lemma frame_pages_append: "frame_pages (fs @ gs) = frame_pages fs @ frame_pages gs"
  by (simp add: frame_pages_def map_filter_def)

lemma feed_frames_accepted: "accept_all accepted a (frame_pages fs) = Some s \<Longrightarrow> feed_frames a fs = Some (Ok s)"
proof (induction fs arbitrary: a)
  case Nil
  then show ?case by (simp add: frame_pages_def map_filter_def)
next
  case (Cons f fs)
  have pages: "frame_pages (f # fs) = (case frame_page f of None \<Rightarrow> frame_pages fs | Some p \<Rightarrow> p # frame_pages fs)"
    by (simp add: frame_pages_def map_filter_def split: option.split)
  show ?case
  proof (cases "frame_page f")
    case None
    with Cons pages show ?thesis by simp
  next
    case (Some p)
    obtain offset page where p: "p = (offset, page)" by (rule prod.exhaust)
    from Cons.prems obtain t where t: "accepted a offset page = Some t" "accept_all accepted t (frame_pages fs) = Some s"
      by (auto simp: pages Some p split: option.splits)
    then obtain u where "accept_page a offset page = Some (Inr u, t)"
      by (auto simp: accepted_def split: option.splits prod.splits sum.splits)
    with Cons.IH [OF t(2)] show ?thesis by (simp add: Some p)
  qed
qed

lemma range_encode_framed: "range_encode c f = Ok out \<Longrightarrow> encode_framed c f = Ok out"
  by (auto simp: range_encode_def split: if_splits option.splits)

lemma decode_truncated:
  assumes "encode_framed c v = Ok out" "k < length out"
  shows "case decode_framed_opt c (take k out, e) of (Inr (Some _), _) \<Rightarrow> False | _ \<Rightarrow> True"
proof -
  obtain body where body: "length body \<le> MAX_FRAMED_BODY" "out = be_bytes 4 (of_nat (length body) :: u32) @ body"
    using assms(1) by (auto simp: encode_framed_Ok)
  show ?thesis
  proof (cases "k < 4")
    case True
    with body show ?thesis by (simp add: decode_framed_opt_def read_exact_def split: option.split)
  next
    case False
    then have "take k out = be_bytes 4 (of_nat (length body) :: u32) @ take (k - 4) body" by (simp add: body)
    moreover have "\<not> length body \<le> k - 4" using False assms(2) body by simp
    ultimately show ?thesis using body(1)
      by (simp add: decode_framed_opt_def read_exact_4 decode_body_def be32.dec_enc body_len_word read_exact_def Let_def)
  qed
qed

lemma read_frames_all:
  assumes "json_roundtrip c" "list_all2 (\<lambda>f out. range_encode c f = Ok out) frames outs"
  shows "read_frames c (concat outs, None) = (Ok frames, ([], None))"
  using assms(2)
proof (induction rule: list_all2_induct)
  case Nil
  show ?case by (subst read_frames.simps) (simp add: range_decode_def decode_framed_opt_def read_exact_def)
next
  case (Cons f fs out outs)
  note d = decode_encoded(2) [OF assms(1) range_encode_framed [OF Cons.hyps(1)], of "concat outs" None]
  with Cons.IH show ?case by (subst read_frames.simps) (simp add: range_decode_def)
qed

lemma read_frames_truncated:
  assumes "json_roundtrip c" "list_all2 (\<lambda>f out. range_encode c f = Ok out) frames outs"
    and "read_frames c (take n (concat outs), e) = (Ok fs, r)"
  shows "\<exists>m. fs = take m frames"
  using assms(2,3)
proof (induction arbitrary: n fs r rule: list_all2_induct)
  case Nil
  then show ?case
    by (subst (asm) read_frames.simps) (auto simp: range_decode_def decode_framed_opt_def read_exact_def split: if_splits option.splits)
next
  case (Cons f gs out outs)
  note enc = range_encode_framed [OF Cons.hyps(1)]
  show ?case
  proof (cases "n < length out")
    case True
    with Cons.prems decode_truncated [OF enc True, of e] have "fs = []"
      by (subst (asm) read_frames.simps) (auto simp: range_decode_def split: prod.splits sum.splits option.splits)
    then show ?thesis by (intro exI [of _ 0]) simp
  next
    case False
    then have "take n (concat (out # outs)) = out @ take (n - length out) (concat outs)" by simp
    with Cons.prems decode_encoded(2) [OF assms(1) enc] obtain gs' r' where
      "read_frames c (take (n - length out) (concat outs), e) = (Ok gs', r')" "fs = f # gs'"
      by (subst (asm) read_frames.simps) (auto simp: range_decode_def split: prod.splits sum.splits)
    with Cons.IH obtain m where "fs = take (Suc m) (f # gs)" by fastforce
    then show ?thesis by blast
  qed
qed

lemma frame_pages_page_frames: "frame_pages (page_frames root total_length xs) = split_chunk_lens_pages xs"
  by (simp add: page_frames_def frame_pages_def map_filter_def frame_page_def with_chunk_lens_page_def comp_def case_prod_unfold)

section \<open>Properties\<close>

text \<open>C15.  The paged prologue end to end: the pages of the sender's split, on frames in any order and with other frames
  between them, encoded onto one stream, are read back as the same frames and reassemble to exactly the sender's
  array; and of a stream cut off anywhere, by an end or an error, a reader obtains an error or the whole array,
  never a partial or a different one, and never panics.\<close>

theorem prologue_over_the_wire:
  assumes "json_roundtrip c" "list_all2 (\<lambda>f out. range_encode c f = Ok out) frames outs"
    and "mset (frame_pages frames) = mset (split_chunk_lens_pages xs)" "assembler_new reserve (length xs) = Ok a"
  shows "read_frames c (concat outs, None) = (Ok frames, ([], None)) \<and> reassemble reserve (length xs) frames = Some (Ok xs)
    \<and> (case fst (read_frames c (take n (concat outs), e)) of
         Inl _ \<Rightarrow> True
       | Inr fs \<Rightarrow> (case reassemble reserve (length xs) fs of None \<Rightarrow> False | Some (Inl _) \<Rightarrow> True | Some (Inr ys) \<Rightarrow> ys = xs))"
proof (intro conjI)
  show "read_frames c (concat outs, None) = (Ok frames, ([], None))" by (rule read_frames_all [OF assms(1,2)])
  have set: "set (frame_pages frames) = set (split_chunk_lens_pages xs)" using assms(3) by (rule mset_eq_setD)
  have "mset (map fst (frame_pages frames)) = mset (map fst (split_chunk_lens_pages xs))" using assms(3) by (simp add: mset_map)
  then have dist: "distinct (map fst (frame_pages frames))"
    using split_pages_distinct [OF assembler_new_Ok(3) [OF assms(4)]] mset_eq_imp_distinct_iff by blast
  show "reassemble reserve (length xs) frames = Some (Ok xs)"
    using honest_pages [OF assms(4) _ dist] set by (simp add: reassemble_def assms(4) feed_frames_accepted)
  show "case fst (read_frames c (take n (concat outs), e)) of
         Inl _ \<Rightarrow> True
       | Inr fs \<Rightarrow> (case reassemble reserve (length xs) fs of None \<Rightarrow> False | Some (Inl _) \<Rightarrow> True | Some (Inr ys) \<Rightarrow> ys = xs)"
  proof -
    obtain q r where Pair: "read_frames c (take n (concat outs), e) = (q, r)" by (rule prod.exhaust)
    show ?thesis
    proof (cases q)
      case (Inr fs)
      with Pair read_frames_truncated [OF assms(1,2)] obtain m where "fs = take m frames" by blast
      then have parts: "frame_pages frames = frame_pages fs @ frame_pages (drop m frames)"
        by (simp add: frame_pages_append [symmetric])
      then have "set (frame_pages fs) \<subseteq> set (split_chunk_lens_pages xs)" "distinct (map fst (frame_pages fs))"
        using set dist by auto
      from honest_pages [OF assms(4) this] show ?thesis
        by (auto simp: Pair Inr reassemble_def assms(4) feed_frames_accepted split: sum.split)
    qed (simp add: Pair)
  qed
qed

theorem prologue_over_the_wire_witness:
  "\<exists>c. read_frames c ([0, 0, 0, 1, 1], None) = (Ok (page_frames ''r'' 12 [5, 7]), ([], None)) \<and>
     reassemble (\<lambda>_. True) 2 (page_frames ''r'' 12 [5, 7]) = Some (Ok [5, 7])"
proof -
  define f where "f = hd (page_frames ''r'' 12 [5, 7])"
  have pages: "split_chunk_lens_pages [5, 7] = [(0, [5, 7])]"
    by (simp add: split_pages_slots div_ceil_def MAX_CHUNK_LENS_PER_FRAME_def slot_offset_def)
  then have f: "page_frames ''r'' 12 [5, 7] = [f]" "rf_bytes f = []" "rf_inclusion_proof f = None"
    by (simp_all add: f_def page_frames_def with_chunk_lens_page_def with_identity_def frame_data_def)
  define c where "c = \<lparr> to_vec = (\<lambda>v. if v = f then Ok [1] else Err []), from_slice = (\<lambda>_. Ok f) \<rparr>"
  have c: "json_roundtrip c" by (auto simp: json_roundtrip_def c_def)
  have "be_bytes 4 (1 :: u32) = [0, 0, 0, 1]" by (simp add: numeral_eq_Suc)
  then have enc: "list_all2 (\<lambda>f out. range_encode c f = Ok out) [f] [[0, 0, 0, 1, 1]]"
    by (simp add: range_encode_def f encode_framed_def c_def MAX_FRAMED_BODY_def MAX_RANGE_FRAME_PAYLOAD_def)
  have "mset (frame_pages [f]) = mset (split_chunk_lens_pages [5, 7])"
    using frame_pages_page_frames [of "''r''" 12 "[5, 7]"] by (simp add: f)
  from prologue_over_the_wire [OF c enc this, of "\<lambda>_. True" _ 0 None] two_chunks_new show ?thesis
    by (intro exI [of _ c]) (simp add: f numeral_2_eq_2)
qed

end
