(* ===== verification/Guard_Run.thy ===== *)
theory Guard_Run imports Fast_Lifecycle begin

text \<open>
  A whole run of the background guard (\<open>run_guard\<close> in \<open>src/src/fast_connect.rs\<close>) against its specification:
  which transports the connection goes through, in order, and how many re-dials are made.
\<close>

text \<open>What the fallback establisher gives from its \<open>k\<close>-th call on, for at most \<open>n\<close> deaths, up to its first failure.\<close>

fun redialed_conns :: "('y, 'st) establisher \<Rightarrow> nat \<Rightarrow> nat \<Rightarrow> ('y, 'st) driver peer_connection list" where
  "redialed_conns redial k 0 = []"
| "redialed_conns redial k (Suc n) =
    (case redial k of Some (_, Inr conn) \<Rightarrow> conn # redialed_conns redial (k + 1) n | _ \<Rightarrow> [])"

lemma redialed_conns_length: "length (redialed_conns redial k n) \<le> n"
  by (induction n arbitrary: k) (auto split: option.split sum.split)

definition promoted_conns ::
  "('y, 'st) probe_env \<Rightarrow> ('y, 'st) guard_plan \<Rightarrow> nat \<Rightarrow> ('y, 'st) fast_peer_connection \<Rightarrow> ('y, 'st) driver peer_connection list" where
  "promoted_conns env plan bound s =
    (case promote_from plan of
       Some (Some (_, Inr conn)) \<Rightarrow> if gate_passed env (fc_peer_id s) bound conn s then [conn] else []
     | _ \<Rightarrow> [])"

text \<open>A pending direct dial that hangs keeps the guard from ever watching the transport.\<close>

definition fallback_conns :: "('y, 'st) guard_plan \<Rightarrow> nat \<Rightarrow> ('y, 'st) driver peer_connection list" where
  "fallback_conns plan deaths =
    (case (promote_from plan, fallback plan) of
       (Some None, _) \<Rightarrow> []
     | (_, None) \<Rightarrow> []
     | (_, Some redial) \<Rightarrow> redialed_conns redial 0 deaths)"

definition conn_transport :: "('y, 'st) driver peer_connection \<Rightarrow> traversal_kind \<times> socket_addr \<times> bytes option" where
  "conn_transport conn = (pc_method conn, pc_remote_addr conn, pc_peer_bls_pub conn)"

lemma transport_from_conn [simp]: "transport (from_conn conn) = conn_transport conn"
  by (simp add: transport_def from_conn_def conn_transport_def)

lemma conn_transport_session [simp]: "conn_transport (conn\<lparr> pc_session := x \<rparr>) = conn_transport conn"
  by (simp add: conn_transport_def)

text \<open>The connection after a sequence of transports: one slot for each, the last one active.\<close>

definition on_transports ::
  "(traversal_kind \<times> socket_addr \<times> bytes option) list \<Rightarrow> ('y, 'st) fast_peer_connection \<Rightarrow> bool" where
  "on_transports ts s \<longleftrightarrow> map transport (fc_slots s) = ts \<and> Suc (fc_active s) = length ts"

lemma on_transportsD: "on_transports ts s \<Longrightarrow> map transport (fc_slots s) = ts \<and> fc_active s = length (fc_slots s) - 1"
  unfolding on_transports_def by (metis diff_Suc_1 length_map)

lemma on_transports_build: "on_transports [conn_transport conn] (fast_build peer_id conn)"
  by (simp add: on_transports_def fast_build_def Let_def)

lemma on_transports_swap: "on_transports ts s \<Longrightarrow> on_transports (ts @ [conn_transport conn]) (swap_to conn s)"
  by (auto simp: on_transports_def)

lemma fallback_loop_transports:
  "on_transports ts s \<Longrightarrow>
   \<exists>log t. fallback_loop redial k n lives s = Some (log, t)
     \<and> on_transports (ts @ map conn_transport (redialed_conns redial k (length lives))) t \<and> fc_peer_id t = fc_peer_id s
     \<and> length log = min (length lives) (Suc (length (redialed_conns redial k (length lives))))"
proof (induction lives arbitrary: k n s ts)
  case (Cons life lives)
  let ?m = "if FALLBACK_STABILITY \<le> life then 0 else saturating_inc n"
  consider "redial k = None" | d e where "redial k = Some (d, Inl e)" | d conn where "redial k = Some (d, Inr conn)"
    by (metis old.sum.exhaust option.exhaust prod.exhaust)
  then show ?case
  proof cases
    case (3 d conn)
    from Cons.IH [OF on_transports_swap [OF Cons.prems], of "k + 1" ?m conn] 3 show ?thesis
      by (auto simp: Let_def fallback_backoff_value)
  qed (use Cons.prems in \<open>auto simp: Let_def fallback_backoff_value\<close>)
qed simp

lemma try_promote_transports:
  assumes "on_transports ts s"
  shows "on_transports (ts @ map conn_transport (if gate_passed env (fc_peer_id s) bound conn s then [conn] else []))
      (snd (try_promote env (fc_peer_id s) bound conn s))
    \<and> fc_peer_id (snd (try_promote env (fc_peer_id s) bound conn s)) = fc_peer_id s"
proof (cases "gate_passed env (fc_peer_id s) bound conn s")
  case False
  then have "snd (try_promote env (fc_peer_id s) bound conn s) = s"
    by (auto simp: try_promote_def gate_passed_def Let_def timeout_def probe_defs is_ok_def in_time_def
        split: option.splits sum.splits prod.splits)
  with False assms show ?thesis by simp
next
  case True
  obtain q x where q: "query_availability (pe_mux env) (pe_request env) (pe_response env) (pe_queued env) (pc_session conn) [] = (q, x)"
    by (rule prod.exhaust)
  with True obtain answer where "q = Ok answer" by (auto simp: gate_passed_def is_ok_iff)
  with True q have "snd (try_promote env (fc_peer_id s) bound conn s) =
      (swap_to (conn\<lparr> pc_session := x \<rparr>) s)\<lparr> fc_draining := fc_active s # fc_draining s \<rparr>"
    by (auto simp: try_promote_def gate_passed_def Let_def timeout_def probe_defs split: option.splits)
  with True on_transports_swap [OF assms, of "conn\<lparr> pc_session := x \<rparr>"] show ?thesis by (simp add: on_transports_def)
qed

section \<open>Properties\<close>

text \<open>C11.  A whole run of the guard, for every plan, every outcome of the dials and every sequence of session deaths: it never
  panics, the connection goes through the initial transport, the direct one when and only when the gate passed,
  and the re-dialed ones up to the first failure, in this order and with the newest active; and each death causes
  at most one re-dial.\<close>

theorem guard_run_transports:
  "\<exists>log t. run_guard env plan bound lives (fast_build peer_id initial) = Some (log, t)
     \<and> map transport (fc_slots t) = map conn_transport
         (initial # promoted_conns env plan bound (fast_build peer_id initial) @ fallback_conns plan (length lives))
     \<and> fc_active t = length (fc_slots t) - 1 \<and> fc_peer_id t = peer_id \<and> length log \<le> length lives
     \<and> length (fallback_conns plan (length lives)) \<le> length log"
proof -
  let ?s = "fast_build peer_id initial"
  have id: "fc_peer_id ?s = peer_id" by (simp add: fast_build_def Let_def)
  define s where "s = (case promote_from plan of Some (Some (_, Inr conn)) \<Rightarrow> snd (try_promote env peer_id bound conn ?s) | _ \<Rightarrow> ?s)"
  have s: "on_transports (map conn_transport (initial # promoted_conns env plan bound ?s)) s \<and> fc_peer_id s = peer_id"
    using on_transports_build [of initial peer_id] try_promote_transports [OF on_transports_build [of initial peer_id], of env bound]
    by (auto simp: s_def promoted_conns_def id split: option.split sum.split split del: if_split)
  show ?thesis
  proof (cases "promote_from plan = Some None")
    case True
    with s show ?thesis by (simp add: run_guard_def fallback_conns_def s_def promoted_conns_def on_transportsD id)
  next
    case False
    have run: "run_guard env plan bound lives ?s =
        (case fallback plan of None \<Rightarrow> Some ([], s) | Some redial \<Rightarrow> fallback_loop redial 0 0 lives s)"
      using False by (auto simp: run_guard_def s_def Let_def id split: option.split sum.split)
    show ?thesis
    proof (cases "fallback plan")
      case None
      with False s show ?thesis unfolding run by (auto simp: fallback_conns_def on_transportsD split: option.split)
    next
      case (Some redial)
      then have f: "fallback_conns plan (length lives) = redialed_conns redial 0 (length lives)"
        using False by (auto simp: fallback_conns_def split: option.split)
      from fallback_loop_transports [of _ s redial 0 0 lives] s obtain log t where
        "fallback_loop redial 0 0 lives s = Some (log, t)" "length log = min (length lives) (Suc (length (redialed_conns redial 0 (length lives))))"
        "on_transports (map conn_transport (initial # promoted_conns env plan bound ?s) @ map conn_transport (redialed_conns redial 0 (length lives))) t"
        "fc_peer_id t = peer_id"
        by blast
      moreover have "length (redialed_conns redial 0 (length lives)) \<le> length lives" by (rule redialed_conns_length)
      ultimately show ?thesis unfolding run Some f by (simp add: on_transportsD)
    qed
  qed
qed

text \<open>Only the promotion compares keys: a re-dial switches to a transport with another BLS key, or with none, on the spot.\<close>

theorem redial_key_unchecked:
  "case run_guard env (fallback_only (Some (\<lambda>_. ready (Ok (demo_direct\<lparr> pc_peer_bls_pub := key \<rparr>))))) bound [0] (fast_build peer_id conn) of
     None \<Rightarrow> False
   | Some (log, t) \<Rightarrow> sl_peer_bls_pub (active_slot t) = key"
proof -
  obtain log t where t: "run_guard env (fallback_only (Some (\<lambda>_. ready (Ok (demo_direct\<lparr> pc_peer_bls_pub := key \<rparr>))))) bound [0] (fast_build peer_id conn)
      = Some (log, t)" "t = swap_to (demo_direct\<lparr> pc_peer_bls_pub := key \<rparr>) (fast_build peer_id conn)"
    by (simp add: run_guard_def fallback_only_def fallback_backoff_value Let_def ready_def)
  show ?thesis unfolding t(1) by (simp add: t(2) active_slot_def from_conn_def nth_append)
qed

end
