(* ===== verification/Circuit_Ledger.thy ===== *)
theory Circuit_Ledger imports Relay_Tunnels begin

text \<open>
  The abstract contract of the circuits a node holds, and that \<open>RelayStatus\<close> (\<open>src/src/relay.rs\<close>) refines it.

  The contract is a ledger: for each peer at most one entry, its role and the time of its last frame.  It knows
  nothing of registration ids, channels, caps, peers or errors; where the code's answer depends on those, the
  ledger allows either.  An event carries what a caller or the relay did; \<open>me\<close> is the local identity at the time.
\<close>

section \<open>The contract\<close>

type_synonym ledger = "string \<Rightarrow> (tunnel_role \<times> nat) option"

datatype ledger_event = Dials string nat | Frame string nat bool | Releases string | Clears | Elsewhere

definition idle :: "nat \<Rightarrow> (tunnel_role \<times> nat) option \<Rightarrow> bool" where
  "idle now e \<longleftrightarrow> (case e of None \<Rightarrow> True | Some (_, since) \<Rightarrow> STALE_CIRCUIT_IDLE \<le> now - since)"

inductive ledger_step :: "string \<Rightarrow> ledger \<Rightarrow> ledger_event \<Rightarrow> ledger \<Rightarrow> bool" for me where
  dialed: "me \<noteq> k \<or> me = [] \<Longrightarrow> idle now (L k) \<Longrightarrow> ledger_step me L (Dials k now) (L(k \<mapsto> (Client, now)))"
| dial_refused: "ledger_step me L (Dials k now) L"
| frame_dropped: "ledger_step me L (Frame k now hello) L"
| frame_taken: "L k = Some (role, since) \<Longrightarrow> ledger_step me L (Frame k now hello) (L(k \<mapsto> (role, now)))"
| introduced: "L k = None \<Longrightarrow> ledger_step me L (Frame k now True) (L(k \<mapsto> (Server, now)))"
| yielded: "L k = Some (Client, since) \<Longrightarrow> \<not> k < me \<Longrightarrow> ledger_step me L (Frame k now True) (L(k \<mapsto> (Server, now)))"
| yield_lost: "L k = Some (Client, since) \<Longrightarrow> \<not> k < me \<Longrightarrow> ledger_step me L (Frame k now True) (L(k := None))"
| released: "ledger_step me L (Releases k) (L(k := None))"
| release_stale: "ledger_step me L (Releases k) L"
| cleared: "ledger_step me L Clears Map.empty"
| elsewhere: "ledger_step me L Elsewhere L"

inductive_cases ledger_stepE: "ledger_step me L ev M"

inductive ledger_trace :: "ledger \<Rightarrow> (string \<times> ledger_event) list \<Rightarrow> ledger \<Rightarrow> bool" for L where
  ledger_start: "ledger_trace L [] L"
| ledger_snoc: "ledger_trace L evs M \<Longrightarrow> ledger_step me M ev N \<Longrightarrow> ledger_trace L (evs @ [(me, ev)]) N"

text \<open>In the contract, a served peer has sent an opening handshake, and a served circuit turns into a dialed one only
  when it was idle.\<close>

lemma ledger_served:
  "ledger_trace L evs M \<Longrightarrow> L k = None \<Longrightarrow> M k = Some (Server, n) \<Longrightarrow> \<exists>me now. (me, Frame k now True) \<in> set evs"
proof (induction arbitrary: n rule: ledger_trace.induct)
  case (ledger_snoc evs M me ev N)
  show ?case
  proof (cases "\<exists>m. M k = Some (Server, m)")
    case True
    with ledger_snoc obtain me' now where "(me', Frame k now True) \<in> set evs" by blast
    then show ?thesis by auto
  next
    case False
    with ledger_snoc.hyps(2) ledger_snoc.prems(2) have "\<exists>now. ev = Frame k now True"
      by (auto elim!: ledger_stepE split: if_splits)
    then show ?thesis by auto
  qed
qed simp

lemma ledger_server_redialed:
  "ledger_step me M ev N \<Longrightarrow> M k = Some (Server, m) \<Longrightarrow> N k = Some (Client, n) \<Longrightarrow> ev = Dials k n \<and> idle n (M k)"
  by (auto elim!: ledger_stepE split: if_splits)

section \<open>The code's operations as events\<close>

definition ledger :: "('c, 'd, 'o) relay_status \<Rightarrow> ledger" where
  "ledger s k = map_option (\<lambda>e. (te_role e, te_last_activity e)) (circuit s k)"

inductive status_event :: "('c, 'd, 'o) chan_env \<Rightarrow> ('c, 'd, 'o) relay_status \<Rightarrow> ledger_event \<Rightarrow> ('c, 'd, 'o) relay_status \<Rightarrow> bool"
  for env where
  dials: "open_tunnel env now s k network = (r, t) \<Longrightarrow> status_event env s (Dials k now) t"
| routes: "status_event env s (Frame k now (is_tls_client_hello p)) (route_relayed env now s k p)"
| drops: "status_event env s (Releases (tu_target tu)) (drop_tunnel s tu)"
| clears: "status_event env s Clears (clear_transport s)"
| other: "status_step env s t \<Longrightarrow> rs_tunnels t = rs_tunnels s \<Longrightarrow> status_event env s Elsewhere t"

inductive status_trace :: "('c, 'd, 'o) chan_env \<Rightarrow> ('c, 'd, 'o) relay_status \<Rightarrow> (string \<times> ledger_event) list \<Rightarrow> ('c, 'd, 'o) relay_status \<Rightarrow> bool"
  for env s where
  status_start: "status_trace env s [] s"
| status_snoc: "status_trace env s evs t \<Longrightarrow> status_event env t ev u \<Longrightarrow>
    status_trace env s (evs @ [(or_empty (rs_local_peer_id t), ev)]) u"

text \<open>Every step of the status is an event.\<close>

lemma status_step_event: assumes "status_step env s t" shows "\<exists>ev. status_event env s ev t"
proof -
  have same: "\<exists>ev. status_event env s ev t" if "rs_tunnels t = rs_tunnels s"
    using assms that by (blast intro: status_event.other)
  from assms show ?thesis
  proof cases
    case (sent tu payload r)
    with tunnel_send_same [OF sent] same show ?thesis by blast
  next
    case (disconnected err)
    then have "rs_tunnels t = rs_tunnels s" by (simp add: setter_defs Let_def split: option.split)
    then show ?thesis by (rule same)
  next
    case (opened now k network r)
    then show ?thesis by (blast intro: status_event.dials)
  next
    case (routed now k payload)
    then show ?thesis by (blast intro: status_event.routes)
  next
    case (dropped tu)
    then show ?thesis by (blast intro: status_event.drops)
  next
    case transport_cleared
    then show ?thesis by (blast intro: status_event.clears)
  qed (rule same; simp add: setter_defs)+
qed

lemma steps_have_trace: "(status_step env)\<^sup>*\<^sup>* s t \<Longrightarrow> \<exists>evs. status_trace env s evs t"
  by (induction rule: rtranclp_induct) (blast intro: status_start status_snoc dest: status_step_event)+

section \<open>Refinement\<close>

lemma ledger_eq_circuit: "circuit t = circuit s \<Longrightarrow> ledger t = ledger s"
  by (rule ext) (simp add: ledger_def)

lemma ledger_upd: "circuit t = (circuit s)(k \<mapsto> e) \<Longrightarrow> ledger t = (ledger s)(k \<mapsto> (te_role e, te_last_activity e))"
  by (rule ext) (simp add: ledger_def)

lemma ledger_del: "circuit t = (circuit s)(k := None) \<Longrightarrow> ledger t = (ledger s)(k := None)"
  by (rule ext) (simp add: ledger_def)

lemma ledger_route: "ledger_step (or_empty (rs_local_peer_id s)) (ledger s) (Frame k now (is_tls_client_hello p)) (ledger (route_relayed env now s k p))"
proof (cases rule: route_relayed_cases [of s k p env now])
  case dropped
  then show ?thesis by (simp add: frame_dropped)
next
  case new
  have "ledger (accept_introduced env now s k p) = (if introduces env s k p then (ledger s)(k \<mapsto> (Server, now)) else ledger s)"
    using ledger_eq_circuit [of "accept_introduced env now s k p" s]
      ledger_upd [of "accept_introduced env now s k p" s k "server_entry now s"]
    by (simp add: circuit_simps) (simp add: server_entry_def)
  then show ?thesis
    using new introduced [of "ledger s" k _ now] frame_dropped by (auto simp: ledger_def introduces_def)
next
  case (through e)
  have "ledger (route_relayed env now s k p) = (ledger s)(k \<mapsto> (te_role e, now))"
    using ledger_upd [of "route_relayed env now s k p" s k "e\<lparr> te_last_activity := now \<rparr>"] through by (simp add: circuit_simps)
  then show ?thesis using frame_taken [of "ledger s" k "te_role e" "te_last_activity e"] through(2) by (simp add: ledger_def)
next
  case (retain e)
  have "ledger (route_relayed env now s k p) = (ledger s)(k \<mapsto> (te_role e, now))"
    using ledger_upd [of "route_relayed env now s k p" s k "e\<lparr> te_last_activity := now \<rparr>"] retain by (simp add: circuit_simps)
  then show ?thesis using frame_taken [of "ledger s" k "te_role e" "te_last_activity e"] retain(2) by (simp add: ledger_def)
next
  case (yield e)
  let ?m = "close_tunnel (stamp now s k e) k (te_id e)" and ?t = "route_relayed env now s k p"
  have m: "circuit ?m = (circuit s)(k := None)"
    using yield(2) by (simp add: circuit_simps circuit_holder_def)
  have c: "circuit ?t = (if introduces env ?m k p then (circuit s)(k \<mapsto> server_entry now ?m) else (circuit s)(k := None))"
    unfolding yield(7) by (simp add: circuit_accept_introduced m)
  have "ledger s k = Some (Client, te_last_activity e)" using yield(2,3) by (simp add: ledger_def)
  note steps = yielded [of "ledger s" k, OF this yield(5)] yield_lost [of "ledger s" k, OF this yield(5)]
  show ?thesis
  proof (cases "introduces env ?m k p")
    case True
    with c have "ledger ?t = (ledger s)(k \<mapsto> (Server, now))" using ledger_upd [of ?t s k "server_entry now ?m"] by (simp add: server_entry_def)
    with steps yield(4) show ?thesis by simp
  next
    case False
    with c have "ledger ?t = (ledger s)(k := None)" by (intro ledger_del) simp
    with steps yield(4) show ?thesis by simp
  qed
qed

lemma ledger_event_refined:
  assumes "status_event env s ev t"
  shows "ledger_step (or_empty (rs_local_peer_id s)) (ledger s) ev (ledger t)"
  using assms
proof cases
  case (dials now k network r)
  then show ?thesis
  proof (cases rule: open_tunnel_cases [of env now s k network])
    case (refused m)
    with dials show ?thesis by (simp add: dial_refused)
  next
    case (opened u s')
    have "ledger t = (ledger s)(k \<mapsto> (Client, now))"
      using ledger_upd [OF circuit_insert_entry [OF opened(2)]] opened(1) dials by simp
    moreover have "idle now (ledger s k)" using opened(5) by (auto simp: idle_def ledger_def split: option.split)
    ultimately show ?thesis using dials opened(4) by (auto intro: dialed)
  qed
next
  case (routes k now p)
  then show ?thesis by (simp add: ledger_route)
next
  case (drops tu)
  have "circuit t = circuit s \<or> circuit t = (circuit s)(tu_target tu := None)"
    by (simp add: drops drop_tunnel_def circuit_close_tunnel)
  then have "ledger t = ledger s \<or> ledger t = (ledger s)(tu_target tu := None)"
    using ledger_eq_circuit ledger_del by blast
  with drops released release_stale show ?thesis by metis
next
  case clears
  have "ledger t = Map.empty" by (rule ext) (simp add: clears ledger_def circuit_def clear_transport_def)
  with clears show ?thesis by (simp add: cleared)
next
  case other
  then have "ledger t = ledger s" by (intro ledger_eq_circuit circuit_cong)
  with other show ?thesis by (simp add: elsewhere)
qed

section \<open>Properties\<close>

text \<open>C5.  The circuits refine their contract: every run of the status, with whatever frames an untrusted relay delivers, is
  event by event a run of the ledger, so a peer this node serves has sent it a ClientHello in that run; a circuit
  this node serves becomes one it dials only by a dial that found it idle.\<close>

theorem relay_status_refines_ledger:
  assumes "status_trace env relay_status_new evs s" "status_event env s ev t"
  shows "ledger_trace Map.empty (evs @ [(or_empty (rs_local_peer_id s), ev)]) (ledger t)
    \<and> (circuit_role s k = Some Server \<longrightarrow> (\<exists>me now. (me, Frame k now True) \<in> set evs)
         \<and> (circuit_role t k = Some Client \<longrightarrow> (\<exists>now. ev = Dials k now \<and> idle now (ledger s k))))"
proof -
  have new: "ledger relay_status_new = Map.empty"
    by (rule ext) (simp add: ledger_def circuit_def relay_status_new_def)
  have tr: "ledger_trace Map.empty evs (ledger s)"
    using assms(1)
  proof (induction rule: status_trace.induct)
    case status_start
    then show ?case by (simp add: new ledger_start)
  next
    case (status_snoc evs t ev u)
    then show ?case by (blast intro: ledger_snoc ledger_event_refined)
  qed
  note step = ledger_event_refined [OF assms(2)]
  have role: "circuit_role x k = Some r \<Longrightarrow> \<exists>n. ledger x k = Some (r, n)" for x :: "('a, 'b, 'c) relay_status" and r
    by (auto simp: circuit_role_def ledger_def)
  have trace: "ledger_trace Map.empty (evs @ [(or_empty (rs_local_peer_id s), ev)]) (ledger t)" by (rule ledger_snoc [OF tr step])
  have "(\<exists>me now. (me, Frame k now True) \<in> set evs)
      \<and> (circuit_role t k = Some Client \<longrightarrow> (\<exists>now. ev = Dials k now \<and> idle now (ledger s k)))"
    if srv: "circuit_role s k = Some Server"
  proof -
    obtain m where m: "ledger s k = Some (Server, m)" using role [OF srv] by blast
    have "\<exists>now. ev = Dials k now \<and> idle now (ledger s k)" if c: "circuit_role t k = Some Client"
    proof -
      obtain n where "ledger t k = Some (Client, n)" using role [OF c] by blast
      from ledger_server_redialed [OF step m this] show ?thesis by blast
    qed
    with ledger_served [OF tr _ m] show ?thesis by simp
  qed
  with trace show ?thesis by blast
qed

theorem relay_status_refines_ledger_witness:
  "\<exists>s :: (nat \<times> bytes list, nat \<times> relay_tunnel list, relay_message list) relay_status. circuit_role s ''a'' = Some Server
     \<and> ledger_trace Map.empty [([], Elsewhere), ([], Frame ''a'' 5 True), ([], Elsewhere)] (ledger (set_connecting s))
     \<and> (\<exists>me now. (me, Frame ''a'' now True) \<in> set [([], Elsewhere), ([], Frame ''a'' 5 True)])"
proof -
  let ?s = "enable_accept queue_env relay_status_new" and ?t = "route_relayed queue_env 5 (enable_accept queue_env relay_status_new) ''a'' client_hello"
  have s: "rs_inbound_accept ?s = Some (INBOUND_ACCEPT_CAP, [])" "rs_local_peer_id ?s = None" "rs_tunnels ?s = []" "circuit ?s ''a'' = None"
    by (simp_all add: enable_accept_def queue_env_def relay_status_new_def circuit_def)
  have "status_event queue_env relay_status_new Elsewhere ?s"
    by (intro status_event.other status_step.accepting) (simp add: enable_accept_def)
  from status_snoc [OF status_start this] have 1: "status_trace queue_env relay_status_new [([], Elsewhere)] ?s"
    by (simp add: or_empty_def relay_status_new_def)
  have "status_event queue_env ?s (Frame ''a'' 5 True) ?t" using status_event.routes [of queue_env ?s "''a''" 5 client_hello] by simp
  from status_snoc [OF 1 this] have 2: "status_trace queue_env relay_status_new [([], Elsewhere), ([], Frame ''a'' 5 True)] ?t"
    by (simp add: or_empty_def s)
  have intro: "introduces queue_env ?s ''a'' client_hello"
    by (simp add: introduces_def s MAX_RELAY_TUNNELS_def INBOUND_ACCEPT_CAP_def) (simp add: queue_env_def)
  have t: "?t = accept_introduced queue_env 5 ?s ''a'' client_hello"
    using s(4) by (cases rule: route_relayed_cases [of ?s "''a''" client_hello queue_env 5])
      (auto simp: admitted_def s or_empty_def MAX_RELAY_PAYLOAD_def)
  have role: "circuit_role ?t ''a'' = Some Server" unfolding t using intro by (simp add: circuit_role_def circuit_simps server_entry_def)
  have me: "rs_local_peer_id ?t = None" unfolding t
    by (cases rule: accept_introduced_cases [of queue_env 5 ?s "''a''" client_hello])
      (auto simp: s insert_entry_simps split: option.split)
  have "status_event queue_env ?t Elsewhere (set_connecting ?t)"
    by (intro status_event.other status_step.connecting) (simp add: setter_defs)
  from relay_status_refines_ledger [OF 2 this, of "''a''"] role
  have "ledger_trace Map.empty [([], Elsewhere), ([], Frame ''a'' 5 True), ([], Elsewhere)] (ledger (set_connecting ?t))
    \<and> (\<exists>me now. (me, Frame ''a'' now True) \<in> set [([], Elsewhere), ([], Frame ''a'' 5 True)])"
    by (simp add: or_empty_def me)
  with role show ?thesis by blast
qed

end
