(* ===== verification/Rendering.thy ===== *)
theory Rendering imports Relay_Tunnels Strategy Safe_Text begin

text \<open>
  What the crate renders for logs and status surfaces: the errors of \<open>src/src/error.rs\<close> over \<open>SafeText\<close>
  (\<open>src/src/safe_text.rs\<close>), and \<open>RelayStatus::snapshot_json\<close> (\<open>src/src/relay.rs\<close>).

  \<open>{:?}\<close> of a \<open>str\<close> consults two Unicode tables of the standard library (grapheme-extending and unprintable
  characters); they are the argument \<open>unprintable\<close>.  A JSON value is \<open>json\<close>.
\<close>

section \<open>Text\<close>

text \<open>\<open>str::chars\<close>: the scalar values of well-formed UTF-8.\<close>

fun utf8_chars :: "nat list \<Rightarrow> uchars" where
  [rust_std]: "utf8_chars (b # bs) =
    (if b < 0x80 then b # utf8_chars bs
     else if b < 0xE0 then (case bs of c # r \<Rightarrow> ((b - 0xC0) * 64 + (c - 0x80)) # utf8_chars r | _ \<Rightarrow> [])
     else if b < 0xF0 then
       (case bs of c # d # r \<Rightarrow> ((b - 0xE0) * 4096 + (c - 0x80) * 64 + (d - 0x80)) # utf8_chars r | _ \<Rightarrow> [])
     else
       (case bs of c # d # e # r \<Rightarrow>
          ((b - 0xF0) * 262144 + (c - 0x80) * 4096 + (d - 0x80) * 64 + (e - 0x80)) # utf8_chars r | _ \<Rightarrow> []))"
| "utf8_chars [] = []"

declare utf8_chars.simps [simp del]

definition str_chars :: "string \<Rightarrow> uchars" where
  "str_chars s = utf8_chars (map of_char s)"

text \<open>\<open>{:?}\<close> of a \<open>str\<close>.\<close>

definition debug_char :: "(nat \<Rightarrow> bool) \<Rightarrow> nat \<Rightarrow> uchars" where
  [rust_std]: "debug_char unprintable ch =
    (if ch = 34 \<or> ch = 92 then [92, ch]
     else if ch = 0 \<or> ch = 9 \<or> ch = 13 \<or> ch = 10 \<or> unprintable ch then escape_debug ch else [ch])"

definition str_debug :: "(nat \<Rightarrow> bool) \<Rightarrow> uchars \<Rightarrow> uchars" where
  [rust_std]: "str_debug unprintable s = lit [CHR 0x22] @ concat (map (debug_char unprintable) s) @ lit [CHR 0x22]"

text \<open>\<open>{:?}\<close> of a list.\<close>

fun list_debug :: "('a \<Rightarrow> uchars) \<Rightarrow> 'a list \<Rightarrow> uchars" where
  "list_debug f [] = lit ''[]''"
| "list_debug f (x # xs) = lit ''['' @ f x @ concat (map (\<lambda>y. lit '', '' @ f y) xs) @ lit '']''"

section \<open>Errors\<close>

definition safe_text_display :: "safe_text \<Rightarrow> uchars" where
  "safe_text_display self = Safe_Text.as_str self"

definition safe_text_debug :: "(nat \<Rightarrow> bool) \<Rightarrow> safe_text \<Rightarrow> uchars" where
  "safe_text_debug unprintable self = str_debug unprintable (Safe_Text.as_str self)"

definition method_error_display :: "method_error \<Rightarrow> uchars" where
  "method_error_display self =
    lit (show_kind (me_kind self)) @ lit '': '' @ safe_text_display (from_untrusted (str_chars (reason self)))"

definition method_error_debug :: "(nat \<Rightarrow> bool) \<Rightarrow> method_error \<Rightarrow> uchars" where
  "method_error_debug unprintable self =
    lit ''MethodError { kind: '' @ lit (show_kind (me_kind self))
      @ lit '', reason: '' @ safe_text_debug unprintable (from_untrusted (str_chars (reason self)))
      @ lit '', timeout: '' @ lit (if timed_out self then ''true'' else ''false'') @ lit '' }''"

definition nat_error_display :: "(nat \<Rightarrow> bool) \<Rightarrow> nat_error \<Rightarrow> uchars" where
  "nat_error_display unprintable self =
    (case self of
       AllMethodsFailed failures \<Rightarrow> lit ''all NAT traversal methods failed: '' @ list_debug (method_error_debug unprintable) failures
     | NoMethodsEnabled \<Rightarrow> lit ''no traversal methods enabled''
     | PeerIdentityMismatch expected actual \<Rightarrow>
         lit ''peer identity mismatch: expected '' @ str_chars expected @ lit '', got '' @ str_chars actual
     | InvalidConfig s \<Rightarrow> lit ''invalid configuration: '' @ str_chars s)"

section \<open>The status snapshot\<close>

datatype json = JNull | JBool bool | JNumber nat | JString string | JObject "(string \<times> json) list"

definition snapshot_json :: "('c, 'd, 'o) relay_status \<Rightarrow> string \<Rightarrow> string \<Rightarrow> json" where
  "snapshot_json self endpoint peer_id =
    (let state = state self in
     JObject
       [(''state'', JString (Relay_Basics.as_str state)),
        (''connected'', JBool (state = Connected)),
        (''endpoint'', JString endpoint),
        (''peer_id'', JString peer_id),
        (''reconnect_attempts'', JNumber (unat (rs_reconnect_attempts self))),
        (''connected_peers'', JNumber (unat (rs_connected_peers self))),
        (''last_error'', (case rs_last_error self of None \<Rightarrow> JNull | Some e \<Rightarrow> JString e))])"

definition dht_records_hook_debug :: "(nat \<Rightarrow> dht_records_answer) option \<Rightarrow> string" where
  "dht_records_hook_debug hook = (if hook \<noteq> None then ''DhtRecordsHook(registered)'' else ''DhtRecordsHook(none)'')"

section \<open>Rendered errors\<close>

definition harmless :: "uchars \<Rightarrow> bool" where
  "harmless s \<longleftrightarrow> list_all (\<lambda>c. \<not> is_control c \<and> \<not> is_bidi_control c) s"

lemma harmless_iff: "harmless s \<longleftrightarrow> (\<forall>c \<in> set s. \<not> dangerous c)"
  by (auto simp: harmless_def list_all_iff dangerous_def)

lemma harmless_append [simp]: "harmless (s @ t) \<longleftrightarrow> harmless s \<and> harmless t"
  by (auto simp: harmless_def)

lemma harmless_concat [simp]: "harmless (concat ss) \<longleftrightarrow> list_all harmless ss"
  by (induction ss) (simp_all add: harmless_def)

lemma harmless_from_untrusted [simp]: "harmless (Safe_Text.as_str (from_untrusted raw))"
  using sanitize_safe by (auto simp: harmless_iff from_untrusted_def)

lemma harmless_debug_char: "\<not> dangerous ch \<Longrightarrow> harmless (debug_char unprintable ch)"
  using escape_safe safe_range by (auto simp: harmless_iff debug_char_def)

text \<open>The literals of the source are printable ASCII.\<close>

lemma harmless_lit: "list_all (\<lambda>c. 32 \<le> (of_char c :: nat) \<and> (of_char c :: nat) < 127) s \<Longrightarrow> harmless (lit s)"
  using safe_range by (auto simp: harmless_iff lit_def list_all_iff)

lemma harmless_str_debug:
  assumes "harmless s"
  shows "harmless (str_debug unprintable s)"
proof -
  have "list_all harmless (map (debug_char unprintable) s)"
    using assms harmless_debug_char by (auto simp: list_all_iff harmless_iff [of s])
  moreover have "harmless (lit [CHR 0x22])" by (rule harmless_lit) simp
  ultimately show ?thesis unfolding str_debug_def harmless_append harmless_concat by simp
qed

lemma harmless_kind [simp]: "harmless (lit (show_kind k))"
  by (cases k) (simp_all add: harmless_lit)

lemma harmless_method_error_debug: "harmless (method_error_debug unprintable e)"
  by (simp add: method_error_debug_def safe_text_debug_def harmless_str_debug harmless_lit)

lemma harmless_list_debug: "(\<And>x. harmless (f x)) \<Longrightarrow> harmless (list_debug f xs)"
  by (cases xs) (simp_all add: harmless_lit list_all_iff)

lemma harmless_all_failed: "harmless (nat_error_display unprintable (AllMethodsFailed es))"
  by (simp add: nat_error_display_def harmless_lit harmless_list_debug harmless_method_error_debug)

lemma strategy_error:
  "snd (connect_with_strategy tie peer methods dialer t) = Inl err \<Longrightarrow> err = NoMethodsEnabled \<or> (\<exists>es. err = AllMethodsFailed es)"
  by (auto simp: connect_with_strategy_def strategy_loop_search Let_def split: if_splits list.splits)

section \<open>Snapshots\<close>

text \<open>The part of the status a snapshot shows; the circuit operations do not touch it.\<close>

definition shown :: "('c, 'd, 'o) relay_status \<Rightarrow> u8 \<times> u32 \<times> string option" where
  "shown s = (rs_state s, rs_reconnect_attempts s, rs_last_error s)"

lemma shown_insert_entry: "insert_entry env now s k network role = (t, s') \<Longrightarrow> shown s' = shown s"
  by (auto simp: insert_entry_def Let_def shown_def)

lemma shown_simps [simp]:
  "shown (deliver env s i p) = shown s" "shown (close_tunnel s k i) = shown s" "shown (stamp now s k e) = shown s"
  "shown (s\<lparr> rs_inbound_accept := a \<rparr>) = shown s"
  by (simp_all add: deliver_def close_tunnel_def stamp_def shown_def split: option.split)

lemma shown_accept [simp]: "shown (accept_introduced env now s k p) = shown s"
proof (cases rule: accept_introduced_cases [of env now s k p])
  case (registered t s' tx d)
  have "shown d = shown s" by (simp add: registered(7) shown_insert_entry [OF registered(5)])
  then show ?thesis unfolding registered(9) by (cases "accept_try_send env tx t") simp_all
qed simp

lemma shown_route [simp]: "shown (route_relayed env now s k p) = shown s"
  by (cases rule: route_relayed_cases [of s k p env now]) simp_all

text \<open>A state byte is one of the four, and a held reservation has no failure on record.\<close>

definition snapshot_ok :: "('c, 'd, 'o) relay_status \<Rightarrow> bool" where
  "snapshot_ok s \<longleftrightarrow> rs_state s = to_u8 (state s) \<and>
     (state s = Connected \<longrightarrow> rs_reconnect_attempts s = 0 \<and> rs_last_error s = None)"

lemma snapshot_ok_shown: "shown t = shown s \<Longrightarrow> snapshot_ok t = snapshot_ok s"
  by (simp add: shown_def snapshot_ok_def state_def)

lemma snapshot_ok_transition: "next \<noteq> Connected \<Longrightarrow> snapshot_ok (snd (transition_to s next))"
  by (simp add: snapshot_ok_def transition_to_def state_def)

lemma snapshot_ok_setters [simp]:
  "snapshot_ok (set_disabled s)" "snapshot_ok (set_connecting s)" "snapshot_ok (set_disconnected s err)" "snapshot_ok (set_connected s n)"
  by (simp_all add: set_disabled_def set_connecting_def set_disconnected_def Let_def snapshot_ok_transition)
    (simp add: set_connected_def transition_to_def snapshot_ok_def state_def from_u8_def)

lemma shown_setters:
  "shown (replace_known_peers s peers) = shown s" "shown (add_known_peer s peer) = shown s"
  "shown (remove_known_peer s k) = shown s" "shown (clear_known_peers s) = shown s"
  "shown (set_transport s k network sink) = shown s" "shown (set_dht_records_provider s reader) = shown s"
  "shown (enable_accept env s) = shown s" "shown (clear_transport s) = shown s" "shown (drop_tunnel s tu) = shown s"
  by (simp_all add: shown_def replace_known_peers_def add_known_peer_def remove_known_peer_def clear_known_peers_def
      set_transport_def set_dht_records_provider_def enable_accept_def clear_transport_def drop_tunnel_def close_tunnel_def Let_def
      split: option.split prod.split)

lemma shown_open: "open_tunnel env now s k network = (r, t) \<Longrightarrow> shown t = shown s"
  by (cases rule: open_tunnel_cases [of env now s k network]) (auto dest: shown_insert_entry)

lemma shown_send: "tunnel_send env s tu payload = (r, t) \<Longrightarrow> shown t = shown s"
  by (auto simp: tunnel_send_def Let_def shown_def split: if_splits option.splits)

lemma step_shown: "status_step env s t \<Longrightarrow> snapshot_ok t \<or> shown t = shown s"
  by (erule status_stepE) (auto simp: shown_setters dest: shown_open shown_send)

lemma snapshot_ok_step: "snapshot_ok s \<Longrightarrow> status_step env s t \<Longrightarrow> snapshot_ok t"
  using step_shown [of env s t] snapshot_ok_shown [of t s] by blast

interpretation snapshots: step_invariant "\<lambda>s. s = relay_status_new" "status_step env" snapshot_ok
proof (unfold_locales, goal_cases)
  case (1 s)
  then show ?case by (simp add: snapshot_ok_def relay_status_new_def state_def from_u8_def)
next
  case (2 s t)
  then show ?case by (rule snapshot_ok_step)
qed

text \<open>The schema of a snapshot.\<close>

definition snapshot_typed :: "json \<Rightarrow> bool" where
  "snapshot_typed v \<longleftrightarrow>
    (case v of
       JObject [(k1, JString st), (k2, JBool con), (k3, JString _), (k4, JString _), (k5, JNumber att), (k6, JNumber n), (k7, err)] \<Rightarrow>
         [k1, k2, k3, k4, k5, k6, k7] =
           [''state'', ''connected'', ''endpoint'', ''peer_id'', ''reconnect_attempts'', ''connected_peers'', ''last_error'']
         \<and> st \<in> {''disabled'', ''connecting'', ''connected'', ''disconnected''} \<and> con = (st = ''connected'')
         \<and> att < 2 ^ 32 \<and> n < 2 ^ 64
         \<and> (case err of JNull \<Rightarrow> True | JString _ \<Rightarrow> \<not> con | _ \<Rightarrow> False) \<and> (con \<longrightarrow> att = 0)
     | _ \<Rightarrow> False)"

section \<open>Properties\<close>

text \<open>C34.  What a peer put into a certificate or a message cannot forge a log line: however the reason of an error came about,
  its \<open>Display\<close> and its \<open>Debug\<close> contain no control character and no bidi-formatting character, and neither does
  any error the traversal strategy returns, with all the failures it aggregates.\<close>

theorem rendered_errors_harmless:
  "list_all (\<lambda>c. \<not> is_control c \<and> \<not> is_bidi_control c) (method_error_display e)
    \<and> list_all (\<lambda>c. \<not> is_control c \<and> \<not> is_bidi_control c) (method_error_debug unprintable e)
    \<and> (case snd (connect_with_strategy tie peer methods dialer t) of
         Inr _ \<Rightarrow> True
       | Inl err \<Rightarrow> list_all (\<lambda>c. \<not> is_control c \<and> \<not> is_bidi_control c) (nat_error_display unprintable err))"
proof -
  have "harmless (nat_error_display unprintable err)"
    if "snd (connect_with_strategy tie peer methods dialer t) = Inl err" for err
    using strategy_error [OF that]
    by (auto simp: harmless_all_failed) (simp add: nat_error_display_def harmless_lit)
  moreover have "harmless (method_error_display e)"
    by (simp add: method_error_display_def safe_text_display_def harmless_lit)
  ultimately show ?thesis
    using harmless_method_error_debug [of unprintable e] by (simp add: harmless_def split: sum.split)
qed



end
