(* ===== verification/Lock_Regions.thy ===== *)
theory Lock_Regions imports Rendering begin

text \<open>
  \<open>RelayStatus\<close> (\<open>src/src/relay.rs\<close>) at the grain of its locks and atomics.

  \<open>Relay_Tunnels\<close> runs every operation as one step.  In the code an operation is a sequence of regions, each under one
  mutex or one atomic access, and other tasks run in between.  Here an operation is the list of its regions; a
  region may add further ones for its own task.  Any number of operations of every kind run at once, which is more
  than the code does: the frames of a session are routed by one task.

  A held \<open>accept_tx\<close> names the accept channel of the time it was cloned.  When \<open>enable_accept\<close> replaced the channel
  in the meantime, the offer goes to the old receiver, which takes it or is gone.
\<close>

section \<open>Regions\<close>

datatype 'o region =
    StorePeerCount u64 | StoreAttempts u32 | BumpAttempts | StoreError "string option" | SwapState relay_state
  | ReplacePeers "relay_peer_info list" | InsertPeer relay_peer_info | RemovePeer string | ClearPeers
  | StoreLocalId string | StoreNetwork string | StoreOutbound "'o option" | StoreReader "nat \<Rightarrow> dht_records_answer"
  | StoreAccept | ClearCircuits | CloseCircuit string u64
  | DialState string string | DialOutbound string string | DialSelf string string | DialInsert string string
  | RouteLocal string bytes | RouteDecide string string bytes | RouteDeliver u64 bytes
  | AcceptCheck string bytes | AcceptNetwork string bytes | AcceptInsert string bytes string
  | AcceptHello string bytes | AcceptOffer relay_tunnel
  | SendLocal relay_tunnel bytes | SendSeq string relay_tunnel bytes | SendOutbound relay_message

text \<open>The regions of \<open>open_tunnel\<close>: the two reads of \<open>relay_transport_ready\<close>, the self guard, and the lookup with the
  insertion under the tunnels lock.\<close>

definition dial_insert ::
  "('c, 'd, 'o) chan_env \<Rightarrow> nat \<Rightarrow> string \<Rightarrow> string \<Rightarrow> ('c, 'd, 'o) relay_status \<Rightarrow> ('c, 'd, 'o) relay_status" where
  "dial_insert env now target network s =
    (case map_of (rs_tunnels s) target of
       Some entry \<Rightarrow>
         if now - te_last_activity entry < STALE_CIRCUIT_IDLE then s else snd (insert_entry env now s target network Client)
     | None \<Rightarrow> snd (insert_entry env now s target network Client))"

text \<open>The regions of \<open>route_relayed\<close> before and after its decision.\<close>

definition route_local :: "string \<Rightarrow> bytes \<Rightarrow> ('c, 'd, 'o) relay_status \<Rightarrow> 'o region list" where
  "route_local from payload s =
    (if MAX_RELAY_PAYLOAD < length payload then []
     else
       let local = or_empty (rs_local_peer_id s) in
       if local \<noteq> [] \<and> local = from then [] else [RouteDecide local from payload])"

definition route_decide ::
  "nat \<Rightarrow> string \<Rightarrow> string \<Rightarrow> bytes \<Rightarrow> ('c, 'd, 'o) relay_status \<Rightarrow> ('c, 'd, 'o) relay_status \<times> 'o region list" where
  "route_decide now local from payload s =
    (case route_decision now s local from payload of
       (Deliver sink, s) \<Rightarrow> (s, [RouteDeliver sink payload])
     | (Ignore, s) \<Rightarrow> (s, [])
     | (Accept, s) \<Rightarrow> (s, [AcceptCheck from payload]))"

text \<open>The regions of \<open>accept_introduced\<close>: the responder path, the network, the check with the insertion under the tunnels
  lock, the opening frame, the offer.\<close>

definition accept_check :: "string \<Rightarrow> bytes \<Rightarrow> ('c, 'd, 'o) relay_status \<Rightarrow> 'o region list" where
  "accept_check from payload s =
    (if \<not> is_tls_client_hello payload then []
     else (case rs_inbound_accept s of None \<Rightarrow> [] | Some accept_tx \<Rightarrow> [AcceptNetwork from payload]))"

definition accept_insert ::
  "('c, 'd, 'o) chan_env \<Rightarrow> nat \<Rightarrow> string \<Rightarrow> bytes \<Rightarrow> string \<Rightarrow> ('c, 'd, 'o) relay_status \<Rightarrow>
   ('c, 'd, 'o) relay_status \<times> 'o region list" where
  "accept_insert env now from payload network_id s =
    (if map_of (rs_tunnels s) from \<noteq> None then (s, [])
     else if MAX_RELAY_TUNNELS \<le> length (rs_tunnels s) then (s, [])
     else (let (tunnel, s) = insert_entry env now s from network_id Server in (s, [AcceptHello from payload, AcceptOffer tunnel])))"

definition accept_hello ::
  "('c, 'd, 'o) chan_env \<Rightarrow> string \<Rightarrow> bytes \<Rightarrow> ('c, 'd, 'o) relay_status \<Rightarrow> ('c, 'd, 'o) relay_status" where
  "accept_hello env from payload s =
    (case map_of (rs_tunnels s) from of Some e \<Rightarrow> deliver env s (te_id e) payload | None \<Rightarrow> s)"

definition accept_offer ::
  "('c, 'd, 'o) chan_env \<Rightarrow> relay_tunnel \<Rightarrow> ('c, 'd, 'o) relay_status \<Rightarrow> ('c, 'd, 'o) relay_status \<times> 'o region list" where
  "accept_offer env tunnel s =
    (case Option.bind (rs_inbound_accept s) (\<lambda>tx. accept_try_send env tx tunnel) of
       Some accept_tx \<Rightarrow> (s\<lparr> rs_inbound_accept := Some accept_tx \<rparr>, [])
     | None \<Rightarrow> (s, [CloseCircuit (tu_target tunnel) (tu_id tunnel)]))"

text \<open>The regions of \<open>RelayTunnel::send\<close>: the local id, the sequence number, the sink.\<close>

definition send_local :: "relay_tunnel \<Rightarrow> bytes \<Rightarrow> ('c, 'd, 'o) relay_status \<Rightarrow> 'o region list" where
  "send_local tunnel payload s =
    (if MAX_RELAY_PAYLOAD < length payload then []
     else (case rs_local_peer_id s of None \<Rightarrow> [] | Some from \<Rightarrow> [SendSeq from tunnel payload]))"

definition send_outbound ::
  "('c, 'd, 'o) chan_env \<Rightarrow> relay_message \<Rightarrow> ('c, 'd, 'o) relay_status \<Rightarrow> ('c, 'd, 'o) relay_status" where
  "send_outbound env frame s =
    (case Option.bind (rs_outbound s) (\<lambda>sink. out_send env sink frame) of
       Some sink \<Rightarrow> s\<lparr> rs_outbound := Some sink \<rparr> | None \<Rightarrow> s)"

fun exec ::
  "('c, 'd, 'o) chan_env \<Rightarrow> nat \<Rightarrow> 'o region \<Rightarrow> ('c, 'd, 'o) relay_status \<Rightarrow> ('c, 'd, 'o) relay_status \<times> 'o region list" where
  "exec env now (StorePeerCount n) s = (s\<lparr> rs_connected_peers := n \<rparr>, [])"
| "exec env now (StoreAttempts n) s = (s\<lparr> rs_reconnect_attempts := n \<rparr>, [])"
| "exec env now BumpAttempts s = (s\<lparr> rs_reconnect_attempts := rs_reconnect_attempts s + 1 \<rparr>, [])"
| "exec env now (StoreError e) s = (s\<lparr> rs_last_error := e \<rparr>, [])"
| "exec env now (SwapState st) s = (snd (transition_to s st), [])"
| "exec env now (ReplacePeers peers) s = (replace_known_peers s peers, [])"
| "exec env now (InsertPeer peer) s = (add_known_peer s peer, [])"
| "exec env now (RemovePeer k) s = (remove_known_peer s k, [])"
| "exec env now ClearPeers s = (clear_known_peers s, [])"
| "exec env now (StoreLocalId k) s = (s\<lparr> rs_local_peer_id := Some k \<rparr>, [])"
| "exec env now (StoreNetwork n) s = (s\<lparr> rs_local_network_id := Some n \<rparr>, [])"
| "exec env now (StoreOutbound sink) s = (s\<lparr> rs_outbound := sink \<rparr>, [])"
| "exec env now (StoreReader reader) s = (set_dht_records_provider s reader, [])"
| "exec env now StoreAccept s = (enable_accept env s, [])"
| "exec env now ClearCircuits s = (s\<lparr> rs_tunnels := [] \<rparr>, [])"
| "exec env now (CloseCircuit k i) s = (close_tunnel s k i, [])"
| "exec env now (DialState k n) s = (s, if is_connected s then [DialOutbound k n] else [])"
| "exec env now (DialOutbound k n) s = (s, if rs_outbound s \<noteq> None then [DialSelf k n] else [])"
| "exec env now (DialSelf k n) s =
    (s, let local = or_empty (rs_local_peer_id s) in if local \<noteq> [] \<and> local = k then [] else [DialInsert k n])"
| "exec env now (DialInsert k n) s = (dial_insert env now k n s, [])"
| "exec env now (RouteLocal k p) s = (s, route_local k p s)"
| "exec env now (RouteDecide local k p) s = route_decide now local k p s"
| "exec env now (RouteDeliver i p) s = (deliver env s i p, [])"
| "exec env now (AcceptCheck k p) s = (s, accept_check k p s)"
| "exec env now (AcceptNetwork k p) s = (s, [AcceptInsert k p (or_empty (rs_local_network_id s))])"
| "exec env now (AcceptInsert k p n) s = accept_insert env now k p n s"
| "exec env now (AcceptHello k p) s = (accept_hello env k p s, [])"
| "exec env now (AcceptOffer tu) s = accept_offer env tu s"
| "exec env now (SendLocal tu p) s = (s, send_local tu p s)"
| "exec env now (SendSeq from tu p) s =
    (s\<lparr> rs_relay_seq := rs_relay_seq s + 1 \<rparr>, [SendOutbound (RelayGossipMessage from (tu_target tu) p (rs_relay_seq s))])"
| "exec env now (SendOutbound m) s = (send_outbound env m s, [])"

section \<open>Operations\<close>

datatype 'o relay_op =
    OpDisabled | OpConnecting | OpConnected u64 | OpDisconnected "string option"
  | OpReplacePeers "relay_peer_info list" | OpAddPeer relay_peer_info | OpRemovePeer string | OpClearPeers
  | OpSetTransport string string 'o | OpReader "nat \<Rightarrow> dht_records_answer" | OpAccept | OpClearTransport
  | OpOpen string string | OpRoute string bytes | OpSend relay_tunnel bytes | OpDrop relay_tunnel

fun program :: "'o relay_op \<Rightarrow> 'o region list" where
  "program OpDisabled = [SwapState Disabled]"
| "program OpConnecting = [SwapState Connecting]"
| "program (OpConnected n) = [StorePeerCount n, StoreAttempts 0, StoreError None, SwapState Connected]"
| "program (OpDisconnected err) =
    BumpAttempts # (case err of Some e \<Rightarrow> [StoreError (Some e)] | None \<Rightarrow> []) @ [SwapState Disconnected]"
| "program (OpReplacePeers peers) = [ReplacePeers peers]"
| "program (OpAddPeer peer) = [InsertPeer peer]"
| "program (OpRemovePeer k) = [RemovePeer k]"
| "program OpClearPeers = [ClearPeers]"
| "program (OpSetTransport k n sink) = [StoreLocalId k, StoreNetwork n, StoreOutbound (Some sink)]"
| "program (OpReader reader) = [StoreReader reader]"
| "program OpAccept = [StoreAccept]"
| "program OpClearTransport = [StoreOutbound None, ClearCircuits]"
| "program (OpOpen k n) = [DialState k n]"
| "program (OpRoute k p) = [RouteLocal k p]"
| "program (OpSend tu p) = [SendLocal tu p]"
| "program (OpDrop tu) = [CloseCircuit (tu_target tu) (tu_id tu)]"

text \<open>The operation of \<open>Relay_Tunnels\<close> a program refines.\<close>

fun apply_op :: "('c, 'd, 'o) chan_env \<Rightarrow> nat \<Rightarrow> 'o relay_op \<Rightarrow> ('c, 'd, 'o) relay_status \<Rightarrow> ('c, 'd, 'o) relay_status" where
  "apply_op env now OpDisabled s = set_disabled s"
| "apply_op env now OpConnecting s = set_connecting s"
| "apply_op env now (OpConnected n) s = set_connected s n"
| "apply_op env now (OpDisconnected err) s = set_disconnected s err"
| "apply_op env now (OpReplacePeers peers) s = replace_known_peers s peers"
| "apply_op env now (OpAddPeer peer) s = add_known_peer s peer"
| "apply_op env now (OpRemovePeer k) s = remove_known_peer s k"
| "apply_op env now OpClearPeers s = clear_known_peers s"
| "apply_op env now (OpSetTransport k n sink) s = set_transport s k n sink"
| "apply_op env now (OpReader reader) s = set_dht_records_provider s reader"
| "apply_op env now OpAccept s = enable_accept env s"
| "apply_op env now OpClearTransport s = clear_transport s"
| "apply_op env now (OpOpen k n) s = snd (open_tunnel env now s k n)"
| "apply_op env now (OpRoute k p) s = route_relayed env now s k p"
| "apply_op env now (OpSend tu p) s = snd (tunnel_send env s tu p)"
| "apply_op env now (OpDrop tu) s = drop_tunnel s tu"

text \<open>An operation alone: its regions one after the other.\<close>

inductive runs ::
  "('c, 'd, 'o) chan_env \<Rightarrow> nat \<Rightarrow> 'o region list \<Rightarrow> ('c, 'd, 'o) relay_status \<Rightarrow> ('c, 'd, 'o) relay_status \<Rightarrow> bool"
  for env now where
  done_nil: "runs env now [] s s"
| region: "exec env now r s = (s', add) \<Longrightarrow> runs env now (add @ rs) s' t \<Longrightarrow> runs env now (r # rs) s t"

inductive_simps runs_iff: "runs env now [] s t" "runs env now (r # rs) s t"

lemma runs_accept: "runs env now [AcceptCheck k p] s (accept_introduced env now s k p)"
proof (cases "insert_entry env now s k (or_empty (rs_local_network_id s)) Server")
  case (Pair tu s')
  have "rs_inbound_accept s' = rs_inbound_accept s" using insert_entry_simps [OF Pair] by simp
  then show ?thesis
    by (auto simp: runs_iff accept_introduced_def accept_check_def accept_insert_def accept_hello_def accept_offer_def Pair Let_def
        split: option.splits)
qed

lemma runs_program: "runs env now (program op) s (apply_op env now op s)"
proof (cases op)
  case (OpRoute k p)
  show ?thesis
  proof (cases "route_decision now s (or_empty (rs_local_peer_id s)) k p")
    case (Pair a s')
    then show ?thesis
      using runs_accept [of env now k p s']
      by (cases a) (auto simp: OpRoute runs_iff route_local_def route_decide_def route_relayed_def Let_def)
  qed
next
  case (OpOpen k n)
  then show ?thesis
    by (auto simp: runs_iff open_tunnel_def relay_transport_ready_def dial_insert_def Let_def split: option.splits prod.splits)
next
  case (OpSend tu p)
  then show ?thesis
    by (auto simp: runs_iff tunnel_send_def send_local_def send_outbound_def Let_def split: option.splits)
next
  case (OpDisconnected err)
  then show ?thesis by (cases err) (auto simp: runs_iff setter_defs Let_def)
qed (simp_all add: runs_iff setter_defs clear_transport_def drop_tunnel_def Let_def)

section \<open>Tasks\<close>

text \<open>The status and what is left of each running operation.  An operation begins at any time; a task runs its next region
  at any time, a registration as long as the id counter has room; an offer to a replaced accept channel is taken by the
  old receiver, or refused because that is gone.\<close>

record ('c, 'd, 'o) lock_state =
  lk_status :: "('c, 'd, 'o) relay_status"
  lk_tasks :: "'o region list list"

fun registers :: "'o region \<Rightarrow> bool" where
  "registers (DialInsert k n) = True"
| "registers (AcceptInsert k p n) = True"
| "registers _ = False"

inductive lock_step :: "('c, 'd, 'o) chan_env \<Rightarrow> ('c, 'd, 'o) lock_state \<Rightarrow> ('c, 'd, 'o) lock_state \<Rightarrow> bool"
  for env where
  begins: "lock_step env g (g\<lparr> lk_tasks := lk_tasks g @ [program op] \<rparr>)"
| advances: "i < length (lk_tasks g) \<Longrightarrow> lk_tasks g ! i = r # rs \<Longrightarrow> (registers r \<longrightarrow> id_room (lk_status g)) \<Longrightarrow>
    exec env now r (lk_status g) = (s, add) \<Longrightarrow> lock_step env g \<lparr> lk_status = s, lk_tasks = (lk_tasks g)[i := add @ rs] \<rparr>"
| old_receiver: "i < length (lk_tasks g) \<Longrightarrow> lk_tasks g ! i = AcceptOffer tu # rs \<Longrightarrow>
    lock_step env g (g\<lparr> lk_tasks := (lk_tasks g)[i := rs] \<rparr>)"
| old_receiver_gone: "i < length (lk_tasks g) \<Longrightarrow> lk_tasks g ! i = AcceptOffer tu # rs \<Longrightarrow>
    lock_step env g (g\<lparr> lk_tasks := (lk_tasks g)[i := CloseCircuit (tu_target tu) (tu_id tu) # rs] \<rparr>)"

definition lock_new :: "('c, 'd, 'o) lock_state" where
  "lock_new = \<lparr> lk_status = relay_status_new, lk_tasks = [] \<rparr>"

text \<open>What holds of a pending region because of the regions before it.\<close>

fun region_ok :: "'o region \<Rightarrow> bool" where
  "region_ok (RouteDecide local k p) \<longleftrightarrow> length p \<le> MAX_RELAY_PAYLOAD"
| "region_ok (AcceptCheck k p) \<longleftrightarrow> length p \<le> MAX_RELAY_PAYLOAD"
| "region_ok (AcceptNetwork k p) \<longleftrightarrow> length p \<le> MAX_RELAY_PAYLOAD \<and> is_tls_client_hello p"
| "region_ok (AcceptInsert k p n) \<longleftrightarrow> length p \<le> MAX_RELAY_PAYLOAD \<and> is_tls_client_hello p"
| "region_ok _ \<longleftrightarrow> True"

definition lock_ok :: "('c, 'd, 'o) lock_state \<Rightarrow> bool" where
  "lock_ok g \<longleftrightarrow> status_ok (lk_status g) \<and> list_all (list_all region_ok) (lk_tasks g)"

lemma region_ok_program: "list_all region_ok (program op)"
  by (cases op) (simp_all split: option.split)

lemma region_ok_exec: "region_ok r \<Longrightarrow> exec env now r s = (t, add) \<Longrightarrow> list_all region_ok add"
  by (cases r)
    (auto simp: route_local_def route_decide_def accept_check_def accept_insert_def accept_offer_def send_local_def Let_def
      split: if_splits option.splits prod.splits route.splits)

lemma status_ok_route_decision:
  assumes "status_ok s" "route_decision now s local k p = (a, t)"
  shows "status_ok t"
  using assms by (cases rule: route_decision_cases [of s k now local p]) (auto intro: status_ok_stamp status_ok_close)

lemma status_ok_peers: "status_ok s \<Longrightarrow> dp_ok (rs_known_peers s)"
  by (simp add: status_ok_def)

lemma status_ok_exec:
  assumes "status_ok s" "registers r \<longrightarrow> id_room s" "exec env now r s = (t, add)"
  shows "status_ok t"
proof (cases r)
  case (DialInsert k n)
  with assms status_ok_insert_client [OF assms(1)] show ?thesis
    by (cases "insert_entry env now s k n Client") (auto simp: dial_insert_def split: option.splits if_splits)
next
  case (AcceptInsert k p n)
  with assms status_ok_insert_server [OF assms(1)] show ?thesis
    by (cases "insert_entry env now s k n Server") (auto simp: accept_insert_def not_le split: if_splits)
next
  case (RouteDecide local k p)
  with assms status_ok_route_decision [OF assms(1)] show ?thesis
    by (auto simp: route_decide_def split: prod.splits route.splits)
next
  case (CloseCircuit k i)
  with assms show ?thesis by (auto intro: status_ok_close)
next
  case (AcceptHello k p)
  with assms show ?thesis by (auto simp: accept_hello_def split: option.splits)
next
  case ClearCircuits
  with assms show ?thesis by (auto simp: status_ok_def circuits_ok_def served_circuit circuit_def)
qed (use assms status_ok_peers [OF assms(1)] in \<open>(intro status_ok_cong [OF assms(1)];
  auto simp: setter_defs send_outbound_def accept_offer_def split: option.splits)\<close>)+

lemma list_all_update: "list_all P xs \<Longrightarrow> P x \<Longrightarrow> list_all P (xs[i := x])"
  by (auto simp: list_all_iff dest!: subsetD [OF set_update_subset_insert])

lemma task_region_ok: "lock_ok g \<Longrightarrow> i < length (lk_tasks g) \<Longrightarrow> lk_tasks g ! i = r # rs \<Longrightarrow> region_ok r \<and> list_all region_ok rs"
  by (metis list.pred_inject(2) list_all_length lock_ok_def)

lemma lock_ok_step:
  assumes "lock_ok g" "lock_step env g h"
  shows "lock_ok h"
  using assms(2)
proof cases
  case (begins op)
  with assms(1) show ?thesis by (simp add: lock_ok_def region_ok_program)
next
  case (advances i r rs now s add)
  have "status_ok s" using assms(1) status_ok_exec [OF _ advances(4,5)] by (simp add: lock_ok_def)
  moreover have "list_all region_ok (add @ rs)"
    using task_region_ok [OF assms(1) advances(2,3)] region_ok_exec [OF _ advances(5)] by simp
  ultimately show ?thesis using assms(1) by (simp add: lock_ok_def advances(1) list_all_update)
next
  case (old_receiver i tu rs)
  with assms(1) task_region_ok [OF assms(1) old_receiver(2,3)] show ?thesis by (simp add: lock_ok_def list_all_update)
next
  case (old_receiver_gone i tu rs)
  with assms(1) task_region_ok [OF assms(1) old_receiver_gone(2,3)] show ?thesis by (simp add: lock_ok_def list_all_update)
qed

interpretation locks: step_invariant "\<lambda>g. g = lock_new" "lock_step env" lock_ok
proof (unfold_locales, goal_cases)
  case (1 g)
  have "status_ok relay_status_new" by (rule relay_status.inv_start) simp
  with 1 show ?case by (simp add: lock_ok_def lock_new_def)
next
  case (2 g h)
  then show ?case by (rule lock_ok_step)
qed

text \<open>Only the insertion of an accepted circuit makes this node serve a peer.\<close>

lemma exec_serves:
  assumes "exec env now r s = (t, add)" "circuit_role t k = Some Server" "circuit_role s k \<noteq> Some Server"
  shows "\<exists>p n. r = AcceptInsert k p n \<and> circuit s k = None \<and> length (rs_tunnels s) < MAX_RELAY_TUNNELS"
proof (cases r)
  case (DialInsert j n)
  with assms show ?thesis
    by (cases "insert_entry env now s j n Client")
      (auto simp: dial_insert_def circuit_role_def circuit_insert_entry split: option.splits if_splits)
next
  case (AcceptInsert j p n)
  with assms show ?thesis
    by (cases "insert_entry env now s j n Server")
      (auto simp: accept_insert_def circuit_role_def circuit_insert_entry circuit_def [symmetric] not_le split: if_splits)
next
  case (RouteDecide local j p)
  with assms show ?thesis
    by (cases rule: route_decision_cases [of s j now local p])
      (auto simp: route_decide_def circuit_role_def circuit_simps split: if_splits)
next
  case ClearCircuits
  with assms show ?thesis by (auto simp: circuit_role_def circuit_def)
qed (use assms in \<open>auto simp: circuit_role_def circuit_def setter_defs send_outbound_def accept_offer_def accept_hello_def
    close_tunnel_alt delete_conv' split: option.splits if_splits\<close>)

section \<open>Schedules\<close>

text \<open>A run given by its choices: which operation begins, which task runs its next region.\<close>

datatype 'o choice = Begin "'o relay_op" | Advance nat

fun schedule :: "('c, 'd, 'o) chan_env \<Rightarrow> 'o choice list \<Rightarrow> ('c, 'd, 'o) lock_state \<Rightarrow> ('c, 'd, 'o) lock_state option" where
  "schedule env [] g = Some g"
| "schedule env (Begin op # cs) g = schedule env cs (g\<lparr> lk_tasks := lk_tasks g @ [program op] \<rparr>)"
| "schedule env (Advance i # cs) g =
    (if i < length (lk_tasks g)
     then (case lk_tasks g ! i of
         [] \<Rightarrow> None
       | r # rs \<Rightarrow>
           if registers r \<and> rs_next_tunnel_id (lk_status g) = - 1 then None
           else (case exec env 0 r (lk_status g) of (s, add) \<Rightarrow>
             schedule env cs \<lparr> lk_status = s, lk_tasks = (lk_tasks g)[i := add @ rs] \<rparr>))
     else None)"

lemma schedule_reachable: "schedule env cs g = Some h \<Longrightarrow> (lock_step env)\<^sup>*\<^sup>* g h"
proof (induction env cs g rule: schedule.induct)
  case (2 env op cs g)
  then show ?case by (auto intro: converse_rtranclp_into_rtranclp lock_step.begins)
next
  case (3 env i cs g)
  then obtain r rs s add where i: "i < length (lk_tasks g)" "lk_tasks g ! i = r # rs" "registers r \<longrightarrow> id_room (lk_status g)"
      "exec env 0 r (lk_status g) = (s, add)" "schedule env cs \<lparr> lk_status = s, lk_tasks = (lk_tasks g)[i := add @ rs] \<rparr> = Some h"
    by (auto simp: id_room_def split: if_splits list.splits prod.splits)
  have "(lock_step env)\<^sup>*\<^sup>* \<lparr> lk_status = s, lk_tasks = (lk_tasks g)[i := add @ rs] \<rparr> h"
    using 3 i by (simp add: id_room_def)
  with lock_step.advances [OF i(1-4)] show ?case by (rule converse_rtranclp_into_rtranclp)
qed simp

section \<open>Properties\<close>

text \<open>C16.  Whatever operations run at once and however their lock regions interleave, the untrusted relay cannot grow the
  state: at most 1,024 discovered peers, without repetition, at most one circuit per peer, every held registration id
  below the counter, at most 256 circuits this node serves; and this node begins to serve a peer only in the insertion
  region of an operation that routes a ClientHello of that very peer, while the peer has no circuit and the cap has room.
  An operation that runs alone is the operation of the status as a whole.\<close>

theorem lock_regions_safe:
  assumes "(lock_step env)\<^sup>*\<^sup>* lock_new g"
  shows "length (known_peers (lk_status g)) \<le> MAX_KNOWN_PEERS \<and> distinct (map rpi_peer_id (known_peers (lk_status g)))
    \<and> circuits_ok (lk_status g) \<and> card (served (lk_status g)) \<le> MAX_RELAY_TUNNELS
    \<and> (lock_step env g h \<longrightarrow> circuit_role (lk_status h) k = Some Server \<longrightarrow> circuit_role (lk_status g) k \<noteq> Some Server \<longrightarrow>
        (\<exists>p n rs. AcceptInsert k p n # rs \<in> set (lk_tasks g) \<and> is_tls_client_hello p \<and> length p \<le> MAX_RELAY_PAYLOAD
           \<and> circuit (lk_status g) k = None \<and> length (rs_tunnels (lk_status g)) < MAX_RELAY_TUNNELS))
    \<and> runs env now (program op) s (apply_op env now op s)"
proof (intro conjI impI)
  have ok: "lock_ok g" using locks.inv_reachable [OF refl assms] .
  then show "length (known_peers (lk_status g)) \<le> MAX_KNOWN_PEERS" "distinct (map rpi_peer_id (known_peers (lk_status g)))"
    "circuits_ok (lk_status g)" "card (served (lk_status g)) \<le> MAX_RELAY_TUNNELS"
    by (simp_all add: lock_ok_def status_ok_def dp_ok_def known_peers_def)
  show "\<exists>p n rs. AcceptInsert k p n # rs \<in> set (lk_tasks g) \<and> is_tls_client_hello p \<and> length p \<le> MAX_RELAY_PAYLOAD
      \<and> circuit (lk_status g) k = None \<and> length (rs_tunnels (lk_status g)) < MAX_RELAY_TUNNELS"
    if "lock_step env g h" "circuit_role (lk_status h) k = Some Server" "circuit_role (lk_status g) k \<noteq> Some Server"
    using that(1)
  proof cases
    case (advances i r rs now s add)
    from exec_serves [OF advances(5), of k] that advances(1) obtain p n where
      "r = AcceptInsert k p n" "circuit (lk_status g) k = None" "length (rs_tunnels (lk_status g)) < MAX_RELAY_TUNNELS" by auto
    with task_region_ok [OF ok advances(2,3)] nth_mem [OF advances(2)] show ?thesis by (auto simp: advances(3))
  qed (use that in auto)
qed (rule runs_program)

theorem lock_regions_safe_witness:
  "\<exists>g. schedule queue_env [Begin OpAccept, Advance 0, Begin (OpRoute ''a'' client_hello), Advance 1, Advance 1, Advance 1, Advance 1, Advance 1]
     lock_new = Some g \<and> circuit_role (lk_status g) ''a'' = Some Server \<and> card (served (lk_status g)) \<le> 256"
proof -
  let ?cs = "[Begin OpAccept, Advance 0, Begin (OpRoute ''a'' client_hello), Advance 1, Advance 1, Advance 1, Advance 1, Advance 1]"
  obtain g where g: "schedule queue_env ?cs lock_new = Some g" "circuit_role (lk_status g) ''a'' = Some Server"
    by (simp add: lock_new_def relay_status_new_def enable_accept_def route_local_def route_decide_def route_decision_def
        accept_check_def accept_insert_def or_empty_def MAX_RELAY_PAYLOAD_def MAX_RELAY_TUNNELS_def insert_entry_def
        circuit_role_def circuit_def Let_def)
  from lock_regions_safe [OF schedule_reachable [OF g(1)], of _ undefined 0 OpAccept relay_status_new] g show ?thesis
    by (simp add: MAX_RELAY_TUNNELS_def)
qed

text \<open>C40.  What interleaving adds to the operations as wholes: a snapshot taken inside \<open>set_disconnected\<close> shows a connected
  reservation with an error; and a dial that checked the session before its end and inserts after it leaves a client
  circuit on a status without a transport, after the teardown that closes every circuit.\<close>

theorem interleaving_artifacts:
  "(\<exists>g. (lock_step queue_env)\<^sup>*\<^sup>* lock_new g \<and> state (lk_status g) = Connected \<and> rs_last_error (lk_status g) = Some ''reset''
      \<and> \<not> snapshot_typed (snapshot_json (lk_status g) endpoint peer_id))
   \<and> (\<exists>g. (lock_step queue_env)\<^sup>*\<^sup>* lock_new g \<and> list_all (\<lambda>task. task = []) (lk_tasks g) \<and> rs_outbound (lk_status g) = None
      \<and> circuit_role (lk_status g) ''a'' = Some Client)"
proof
  let ?cs = "[Begin (OpConnected 3), Advance 0, Advance 0, Advance 0, Advance 0, Begin (OpDisconnected (Some ''reset'')), Advance 1, Advance 1]"
  obtain g where g: "schedule queue_env ?cs lock_new = Some g" "state (lk_status g) = Connected" "rs_last_error (lk_status g) = Some ''reset''"
    by (simp add: lock_new_def relay_status_new_def transition_to_def state_def from_u8_def)
  moreover from g(2,3) have "\<not> snapshot_typed (snapshot_json (lk_status g) endpoint peer_id)"
    by (simp add: snapshot_json_def snapshot_typed_def Let_def)
  ultimately show "\<exists>g. (lock_step queue_env)\<^sup>*\<^sup>* lock_new g \<and> state (lk_status g) = Connected
      \<and> rs_last_error (lk_status g) = Some ''reset'' \<and> \<not> snapshot_typed (snapshot_json (lk_status g) endpoint peer_id)"
    using schedule_reachable by blast
next
  let ?cs = "[Begin (OpConnected 3), Advance 0, Advance 0, Advance 0, Advance 0, Begin (OpSetTransport ''b'' ''n'' []), Advance 1, Advance 1, Advance 1,
      Begin (OpOpen ''a'' ''n''), Advance 2, Advance 2, Advance 2, Begin OpClearTransport, Advance 3, Advance 3, Advance 2]"
  have "\<exists>g. schedule queue_env ?cs lock_new = Some g \<and> list_all (\<lambda>task. task = []) (lk_tasks g) \<and> rs_outbound (lk_status g) = None
      \<and> circuit_role (lk_status g) ''a'' = Some Client"
    by (simp add: lock_new_def relay_status_new_def transition_to_def is_connected_def state_def from_u8_def or_empty_def
        dial_insert_def insert_entry_def circuit_role_def circuit_def Let_def)
  then show "\<exists>g. (lock_step queue_env)\<^sup>*\<^sup>* lock_new g \<and> list_all (\<lambda>task. task = []) (lk_tasks g) \<and> rs_outbound (lk_status g) = None
      \<and> circuit_role (lk_status g) ''a'' = Some Client"
    using schedule_reachable by blast
qed

end
