(* ===== verification/Fast_Session.thy ===== *)
theory Fast_Session imports Guard_Run Fast_Connect begin

text \<open>
  A fast connection from its race to the end of its guard (\<open>connect_fast\<close> and \<open>run_guard\<close> in
  \<open>src/src/fast_connect.rs\<close>): whose transports it goes through and of which tiers.
\<close>

section \<open>What a race hands to its guard\<close>

text \<open>A dial that yields only connections with a property.\<close>

definition yields :: "(('y, 'st) driver peer_connection \<Rightarrow> bool) \<Rightarrow> ('y, 'st) dial_future \<Rightarrow> bool" where
  "yields P f \<longleftrightarrow> (case f of Some (_, Inr conn) \<Rightarrow> P conn | _ \<Rightarrow> True)"

lemma yields_never [simp]: "yields P None"
  by (simp add: yields_def)

lemma yields_remaining [simp]: "yields P (remaining d f) = yields P f"
  by (auto simp: yields_def remaining_def split: option.split)

lemma yields_iff: "yields P f \<longleftrightarrow> (\<forall>d conn. f = Some (d, Ok conn) \<longrightarrow> P conn)"
  by (auto simp: yields_def split: option.split sum.split)

lemma landing_yields: "landing f = Some (d, conn) \<Longrightarrow> yields P f \<Longrightarrow> P conn"
  by (auto simp: landing_def yields_def split: option.splits sum.splits)

definition plan_yields ::
  "(('y, 'st) driver peer_connection \<Rightarrow> bool) \<Rightarrow> (('y, 'st) driver peer_connection \<Rightarrow> bool) \<Rightarrow> ('y, 'st) guard_plan \<Rightarrow> bool" where
  "plan_yields P Q plan \<longleftrightarrow> pred_option (yields P) (promote_from plan) \<and> pred_option (\<lambda>f. \<forall>k. yields Q (f k)) (fallback plan)"

lemma first_usable_yields:
  assumes "first_usable tie peer_id direct relayed = Some (d, Ok (fc, plan))" "\<And>k. yields P (direct k)" "\<And>k. yields Q (relayed k)"
  shows "(\<exists>conn. fc = fast_build peer_id conn \<and> (P conn \<or> Q conn)) \<and> plan_yields P Q plan"
proof -
  have again: "yields Q (again relayed k)" for k using assms(3) by (simp add: again_def)
  have tail: "direct 0 = f \<Longrightarrow> yields P f" for f using assms(2) [of 0] by simp
  from assms(1) show ?thesis
    by (auto simp: first_usable_def Let_def build_def fallback_only_def plan_yields_def again assms(2)
        split: option.splits if_splits sum.splits prod.splits
        dest: landing_yields [OF _ assms(2) [of 0]] landing_yields [OF _ assms(3) [of 0]] intro: tail)
qed

lemma promoted_yields:
  assumes "plan_yields P Q plan" "conn \<in> set (promoted_conns env plan bound s)"
  shows "P conn \<and> pc_peer_bls_pub conn = sl_peer_bls_pub (active_slot s)"
proof -
  from assms(2) obtain d where "promote_from plan = Some (Some (d, Inr conn))" "gate_passed env (fc_peer_id s) bound conn s"
    by (cases "promote_from plan"; cases "the (promote_from plan)") (auto simp: promoted_conns_def split: sum.splits if_splits)
  with assms(1) show ?thesis by (simp add: plan_yields_def yields_def gate_passed_def)
qed

lemma promoted_once: "length (promoted_conns env plan bound s) \<le> 1"
  by (simp add: promoted_conns_def split: option.split sum.split)

lemma redialed_yields:
  assumes "\<And>k. yields Q (redial k)"
  shows "conn \<in> set (redialed_conns redial k n) \<Longrightarrow> Q conn"
proof (induction n arbitrary: k)
  case (Suc n)
  with assms [of k] show ?case by (cases "redial k") (auto simp: yields_def split: sum.splits)
qed simp

lemma fallback_yields:
  assumes "plan_yields P Q plan" "conn \<in> set (fallback_conns plan n)"
  shows "Q conn"
proof -
  from assms(2) obtain redial where "fallback plan = Some redial" "conn \<in> set (redialed_conns redial 0 n)"
    by (cases "fallback plan") (auto simp: fallback_conns_def split: option.splits)
  with assms(1) show ?thesis using redialed_yields [of Q redial] by (simp add: plan_yields_def)
qed

section \<open>The production establishers\<close>

text \<open>A connection of the direct ladder is one of the composed tiers, never the relayed one; a re-dial is relayed.\<close>

definition direct_conn :: "'bp nat_config \<Rightarrow> 'tun nat_runtime \<Rightarrow> peer_target \<Rightarrow> ('y, 'st) driver peer_connection \<Rightarrow> bool" where
  "direct_conn config runtime peer conn \<longleftrightarrow> pc_peer_id conn = pt_peer_id peer \<and> pc_method conn \<noteq> Relayed
     \<and> is_enabled config (pc_method conn) \<and> tier_available runtime (pc_method conn)"

definition relayed_conn :: "'tun tunnel_dialer \<Rightarrow> peer_target \<Rightarrow> ('y, 'st) driver peer_connection \<Rightarrow> bool" where
  "relayed_conn relay peer conn \<longleftrightarrow> pc_peer_id conn = pt_peer_id peer \<and> pc_method conn = Relayed \<and> pc_remote_addr conn = rd_relay_endpoint relay"

lemma direct_establisher_yields:
  assumes "\<And>k. spki_pinned (env k)"
  shows "yields (direct_conn config runtime peer) (direct_establisher env le peer node config runtime k)"
  unfolding yields_iff
proof (intro allI impI)
  fix d conn assume run: "direct_establisher env le peer node config runtime k = Some (d, Ok conn)"
  let ?ms = "compose_ladder (le k) (cfg_disable config Relayed) runtime"
    and ?self = "with_binding_policy (mtls_dialer_new (env k) node) (binding_policy config)"
  from run have won: "connect_with_strategy (le_tie (le k)) peer ?ms (mtls_dial (env k) ?self) (per_method_timeout config) = (d, Ok conn)"
    by (simp add: direct_establisher_def cfg_disable_def Let_def)
  have "pc_method conn \<in> tm_kind ` set ?ms"
    using strategy_tagged [OF compose_ladder_honest [of "le k" "cfg_disable config Relayed" runtime] mtls_dial_honest [of "env k" ?self],
        of "le_tie (le k)" peer "per_method_timeout config"]
    by (simp add: won)
  then have "pc_method conn \<in> set (composed_tiers (cfg_disable config Relayed) runtime)"
    using compose_ladder_kinds [of "le k" "cfg_disable config Relayed" runtime] by (metis composed_tiers_def set_map)
  then have "pc_method conn \<noteq> Relayed \<and> is_enabled config (pc_method conn) \<and> tier_available runtime (pc_method conn)"
    by (simp only: composed_tiers_def set_filter) (simp add: is_enabled_def cfg_disable_def)
  moreover have "pc_peer_id conn = pt_peer_id peer"
    using direct_pinned [where env = env, OF assms] run unfolding pinned_dial_def by blast
  ultimately show "direct_conn config runtime peer conn" by (simp add: direct_conn_def)
qed

lemma relayed_establisher_yields:
  assumes "\<And>k. spki_pinned (env k)"
  shows "yields (relayed_conn relay peer) (relayed_establisher env peer node config relay k)"
  unfolding yields_iff
proof (intro allI impI)
  fix d conn assume run: "relayed_establisher env peer node config relay k = Some (d, Ok conn)"
  have "pc_peer_id conn = pt_peer_id peer"
    using relayed_pinned [where env = env, OF assms] run unfolding pinned_dial_def by blast
  moreover obtain stream addr e self where "handshake_over (env k) self peer Relayed stream addr = Some (e, Ok conn)" "addr = rd_relay_endpoint relay"
    using run by (auto simp: relayed_establisher_def mtls_dial_def dial_relayed_def outcome_single_def outcome_dial_addr_def with_relayed_dialer_def
        Let_def await_ok_eq_Ok split: if_splits)
  ultimately show "relayed_conn relay peer conn" using handshake_over_Ok by (fastforce simp: relayed_conn_def)
qed

text \<open>Whatever \<open>connect_fast\<close> starts with and plans is made by its two establishers.\<close>

definition tier_ok :: "'bp nat_config \<Rightarrow> 'tun nat_runtime \<Rightarrow> peer_target \<Rightarrow> ('y, 'st) driver peer_connection \<Rightarrow> bool" where
  "tier_ok config runtime peer conn \<longleftrightarrow> pred_option (\<lambda>relay. relayed_conn relay peer conn) (rt_relayed runtime) \<and> rt_relayed runtime \<noteq> None"

lemma tier_okD:
  "tier_ok config runtime peer conn \<Longrightarrow> pc_peer_id conn = pt_peer_id peer \<and> pc_method conn = Relayed
     \<and> Some (pc_remote_addr conn) = map_option rd_relay_endpoint (rt_relayed runtime)"
  by (auto simp: tier_ok_def relayed_conn_def)

lemma connect_fast_yields:
  assumes "\<And>k. spki_pinned (env k)" "connect_fast tie env le peer node config runtime = Some (d, Ok (fc, plan))"
  shows "(\<exists>conn. fc = fast_build (pt_peer_id peer) conn \<and> (direct_conn config runtime peer conn \<or> tier_ok config runtime peer conn))
    \<and> plan_yields (direct_conn config runtime peer) (tier_ok config runtime peer) plan"
proof (cases "rt_relayed runtime")
  case None
  with assms(2) obtain conn where "direct_establisher env le peer node config runtime 0 = Some (d, Ok conn)"
      "fc = fast_build (pt_peer_id peer) conn" "plan = guard_plan_none"
    by (auto simp: connect_fast_def connect_fast_with_def await_ok_eq_Ok build_def)
  with direct_establisher_yields [where env = env, OF assms(1), where config = config and runtime = runtime and peer = peer and le = le and node = node and k = 0] show ?thesis
    by (auto simp: yields_iff plan_yields_def guard_plan_none_def)
next
  case (Some r)
  with assms(2) have race: "first_usable tie (pt_peer_id peer) (direct_establisher env le peer node config runtime)
      (relayed_establisher env peer node config r) = Some (d, Ok (fc, plan))"
    by (simp add: connect_fast_def connect_fast_with_eq)
  have "yields (tier_ok config runtime peer) (relayed_establisher env peer node config r k)" for k
    using relayed_establisher_yields [where env = env, OF assms(1), where relay = r and peer = peer and node = node and config = config and k = k] by (auto simp: yields_iff tier_ok_def Some)
  from first_usable_yields [OF race direct_establisher_yields [OF assms(1)] this] show ?thesis .
qed

section \<open>Properties\<close>

text \<open>C13.  A fast connection belongs to one peer for its whole life.  Once \<open>connect_fast\<close> returned it, whatever its guard meets,
  it goes through one transport after the other: the one that won the race, at most one promoted direct one, and the
  re-dialed ones, the newest active.  Each was authenticated as the asked-for peer (given the pinning contract of the TLS
  library); the promoted one is of an enabled tier that is not the relay and has the same BLS key as the first; a
  re-dialed one runs over the relay.\<close>

theorem fast_session_of_one_peer:
  fixes fc :: "('y, 'st) fast_peer_connection"
  assumes "\<And>k. spki_pinned (env k)" "connect_fast tie env le peer node config runtime = Some (d, Ok (fc, plan))"
  shows "\<exists>log t (first :: ('y, 'st) driver peer_connection) promoted redialed. run_guard penv plan bound lives fc = Some (log, t)
    \<and> map transport (fc_slots t) = map conn_transport (first # promoted @ redialed) \<and> fc_active t = length (promoted @ redialed)
    \<and> length promoted \<le> 1 \<and> length redialed \<le> length lives
    \<and> (\<forall>conn \<in> set (first # promoted @ redialed). pc_peer_id conn = pt_peer_id peer)
    \<and> (pc_method first = Relayed \<or> is_enabled config (pc_method first))
    \<and> (\<forall>conn \<in> set promoted. pc_method conn \<noteq> Relayed \<and> is_enabled config (pc_method conn) \<and> pc_peer_bls_pub conn = pc_peer_bls_pub first)
    \<and> (\<forall>conn \<in> set redialed. pc_method conn = Relayed \<and> Some (pc_remote_addr conn) = map_option rd_relay_endpoint (rt_relayed runtime))"
proof -
  let ?P = "direct_conn config runtime peer" and ?Q = "tier_ok config runtime peer"
  obtain first where fc: "fc = fast_build (pt_peer_id peer) first" "?P first \<or> ?Q first" and plan: "plan_yields ?P ?Q plan"
    using connect_fast_yields [OF assms] by blast
  let ?ps = "promoted_conns penv plan bound fc" and ?rs = "fallback_conns plan (length lives)"
  obtain log t where run: "run_guard penv plan bound lives fc = Some (log, t)"
      "map transport (fc_slots t) = map conn_transport (first # ?ps @ ?rs)" "fc_active t = length (fc_slots t) - 1"
      "length log \<le> length lives" "length ?rs \<le> length log"
    using guard_run_transports [of penv plan bound lives "pt_peer_id peer" first] unfolding fc(1) by blast
  have "length (fc_slots t) = Suc (length (?ps @ ?rs))" using arg_cong [OF run(2), of length] by simp
  moreover have "\<forall>conn \<in> set ?ps. ?P conn \<and> pc_peer_bls_pub conn = pc_peer_bls_pub first"
    using promoted_yields [OF plan] by (auto simp: fc(1) fast_build_def active_slot_def from_conn_def Let_def)
  moreover have "\<forall>conn \<in> set ?rs. pc_peer_id conn = pt_peer_id peer \<and> pc_method conn = Relayed
      \<and> Some (pc_remote_addr conn) = map_option rd_relay_endpoint (rt_relayed runtime)"
    using fallback_yields [OF plan] tier_okD by blast
  moreover have "pc_peer_id first = pt_peer_id peer \<and> (pc_method first = Relayed \<or> is_enabled config (pc_method first))"
    using fc(2) tier_okD by (auto simp: direct_conn_def)
  ultimately have rest: "fc_active t = length (?ps @ ?rs)" "length ?rs \<le> length lives"
    "\<forall>conn \<in> set (first # ?ps @ ?rs). pc_peer_id conn = pt_peer_id peer" "pc_method first = Relayed \<or> is_enabled config (pc_method first)"
    "\<forall>conn \<in> set ?ps. pc_method conn \<noteq> Relayed \<and> is_enabled config (pc_method conn) \<and> pc_peer_bls_pub conn = pc_peer_bls_pub first"
    "\<forall>conn \<in> set ?rs. pc_method conn = Relayed \<and> Some (pc_remote_addr conn) = map_option rd_relay_endpoint (rt_relayed runtime)"
    using run(3-5) by (auto simp: direct_conn_def)
  from run(1,2) rest(1) promoted_once rest(2-) show ?thesis by blast
qed

theorem fast_session_of_one_peer_witness:
  "\<exists>d fc plan log t. connect_fast False (\<lambda>_. fast_env) (\<lambda>_. sample_ladder_env) (relay_only [2] []) [1] (nat_config_default [] ())
       (rt_set_relayed nat_runtime_default demo_relay) = Some (d, Ok (fc, plan))
     \<and> run_guard demo_probe plan 1000 [5] fc = Some (log, t) \<and> length (fc_slots t) \<le> 3"
proof -
  obtain d fc plan where start: "connect_fast False (\<lambda>_. fast_env) (\<lambda>_. sample_ladder_env) (relay_only [2] []) [1] (nat_config_default [] ())
       (rt_set_relayed nat_runtime_default demo_relay) = Some (d, Ok (fc, plan))"
    using demo_start by blast
  obtain log t first promoted redialed where run: "run_guard demo_probe plan 1000 [5] fc = Some (log, t)"
    "map transport (fc_slots t) = map conn_transport ((first :: (nat, bytes) driver peer_connection) # promoted @ redialed)"
    "length promoted \<le> 1" "length redialed \<le> length [5 :: nat]"
    using fast_session_of_one_peer [OF fast_env_pinned start, of demo_probe 1000 "[5]"] by blast
  have "length (fc_slots t) \<le> 3" using arg_cong [OF run(2), of length] run(3,4) by simp
  with start run(1) show ?thesis by blast
qed

end
