(* ===== verification/Fast_Handle.thy ===== *)
theory Fast_Handle imports Fast_Lifecycle begin

text \<open>
  The handle of a fast connection and its background guard (\<open>FastPeerConnection\<close> and \<open>PromotionGuard\<close> in
  \<open>src/src/fast_connect.rs\<close>): what a drop of the handle leaves.

  \<open>JoinHandle::abort\<close> takes effect at the next \<open>await\<close> of the guard: an aborted guard that is running ends its
  stretch up to that \<open>await\<close>, in which it may store one transport, and is gone then with what it captured.  Its stretches
  that store are the end of \<open>try_promote\<close> and the end of a re-dial.  The calls on the handle borrow it, so it is dropped
  when none of them is in flight; streams, drain tasks and drivers do not.
\<close>

section \<open>The handle\<close>

datatype guard_task = Running | Aborted | Gone

record ('y, 'st) fast_handle =
  fh_conn :: "('y, 'st) fast_peer_connection"
  fh_dropped :: bool
  fh_guard :: guard_task

definition handle_new :: "peer_id \<Rightarrow> ('y, 'st) driver peer_connection \<Rightarrow> ('y, 'st) fast_handle" where
  "handle_new peer_id initial = \<lparr> fh_conn = fast_build peer_id initial, fh_dropped = False, fh_guard = Running \<rparr>"

text \<open>\<open>Drop\<close> of the \<open>PromotionGuard\<close>; a guard that has ended stays ended.\<close>

definition promotion_guard_drop :: "guard_task \<Rightarrow> guard_task" where
  "promotion_guard_drop handle = (if handle = Gone then Gone else Aborted)"

definition drop_handle :: "('y, 'st) fast_handle \<Rightarrow> ('y, 'st) fast_handle" where
  "drop_handle self = self\<lparr> fh_dropped := True, fh_guard := promotion_guard_drop (fh_guard self) \<rparr>"

text \<open>Who moves the connection: calls on the handle, stretches of the guard, and what lives beside the handle.\<close>

inductive call_step :: "('y, 'st) fast_peer_connection \<Rightarrow> ('y, 'st) fast_peer_connection \<Rightarrow> bool" where
  load: "call_step s (open_begin s)"
| finish: "k \<in> set (fc_opening s) \<Longrightarrow> open_finish env queued k s = (r, t) \<Longrightarrow> call_step s t"
| abandon: "k \<in> set (fc_opening s) \<Longrightarrow> call_step s (s\<lparr> fc_opening := remove1 k (fc_opening s) \<rparr>)"
| watch: "call_step s (snd (subscribe s))"

inductive guard_step :: "('y, 'st) fast_peer_connection \<Rightarrow> ('y, 'st) fast_peer_connection \<Rightarrow> bool" where
  promote: "try_promote penv (fc_peer_id s) probe_timeout conn s = (d, t) \<Longrightarrow> guard_step s t"
| redial: "guard_step s (swap_to conn s)"

inductive beside_step :: "('y, 'st) fast_peer_connection \<Rightarrow> ('y, 'st) fast_peer_connection \<Rightarrow> bool" where
  poll: "map_of (fc_streams s) i = Some f \<Longrightarrow>
    beside_step s (s\<lparr> fc_streams := AList.update i (f\<lparr> fs_inner := x \<rparr>) (fc_streams s) \<rparr>)"
| drop: "beside_step s (drop_stream i s)"
| drive: "drive_connection env evs (sl_session (fc_slots s ! k)) = (replies, session) \<Longrightarrow>
    beside_step s (s\<lparr> fc_slots := (fc_slots s)[k := (fc_slots s ! k)\<lparr> sl_session := session \<rparr>] \<rparr>)"
| unwatch: "beside_step s (unsubscribe s)"
| drained: "k \<in> set (fc_draining s) \<Longrightarrow> beside_step s (s\<lparr> fc_draining := remove1 k (fc_draining s) \<rparr>)"

inductive handle_step :: "('y, 'st) fast_handle \<Rightarrow> ('y, 'st) fast_handle \<Rightarrow> bool" where
  call: "\<not> fh_dropped w \<Longrightarrow> call_step (fh_conn w) s \<Longrightarrow> handle_step w (w\<lparr> fh_conn := s \<rparr>)"
| guards: "fh_guard w = Running \<Longrightarrow> guard_step (fh_conn w) s \<Longrightarrow> handle_step w (w\<lparr> fh_conn := s \<rparr>)"
| ends: "fh_guard w = Running \<Longrightarrow> handle_step w (w\<lparr> fh_guard := Gone \<rparr>)"
| last_stretch: "fh_guard w = Aborted \<Longrightarrow> guard_step (fh_conn w) s \<Longrightarrow> handle_step w (w\<lparr> fh_conn := s, fh_guard := Gone \<rparr>)"
| cancelled: "fh_guard w = Aborted \<Longrightarrow> handle_step w (w\<lparr> fh_guard := Gone \<rparr>)"
| beside: "beside_step (fh_conn w) s \<Longrightarrow> handle_step w (w\<lparr> fh_conn := s \<rparr>)"
| dropped: "\<not> fh_dropped w \<Longrightarrow> fc_opening (fh_conn w) = [] \<Longrightarrow> handle_step w (drop_handle w)"

text \<open>The transports that live: the active one while the handle or the guard points to it, and those of opens, streams and
  drain tasks.\<close>

definition transports_held :: "('y, 'st) fast_handle \<Rightarrow> nat set" where
  "transports_held w = (if fh_dropped w \<and> fh_guard w = Gone then {} else {fc_active (fh_conn w)})
     \<union> set (fc_opening (fh_conn w)) \<union> set (fc_draining (fh_conn w)) \<union> (fs_slot \<circ> snd) ` set (fc_streams (fh_conn w))"

section \<open>Invariants\<close>

lemma steps_are_fast:
  "call_step s t \<Longrightarrow> fast_step s t" "guard_step s t \<Longrightarrow> fast_step s t" "beside_step s t \<Longrightarrow> fast_step s t"
  by (erule call_step.cases guard_step.cases beside_step.cases; blast intro: fast_step.intros)+

definition handle_ok :: "('y, 'st) fast_handle \<Rightarrow> bool" where
  "handle_ok w \<longleftrightarrow> fast_ok (fh_conn w) \<and> (fh_dropped w \<longrightarrow> fc_opening (fh_conn w) = [] \<and> fh_guard w \<noteq> Running)"

lemma guard_step_same:
  "guard_step s t \<Longrightarrow> fc_opening t = fc_opening s \<and> fc_streams t = fc_streams s \<and> fc_next_stream t = fc_next_stream s
     \<and> length (fc_slots t) \<le> Suc (length (fc_slots s))"
  by (erule guard_step.cases) (auto elim!: try_promote_cases)

lemma beside_step_same:
  "beside_step s t \<Longrightarrow> fc_opening t = fc_opening s \<and> fc_active t = fc_active s \<and> fc_next_stream t = fc_next_stream s
     \<and> length (fc_slots t) = length (fc_slots s)"
  by (erule beside_step.cases) (auto simp: drop_stream_def unsubscribe_def Let_def split: option.split)

lemma beside_step_holders:
  assumes "beside_step s t"
  shows "set (fc_draining t) \<subseteq> set (fc_draining s)" "(fs_slot \<circ> snd) ` set (fc_streams t) \<subseteq> (fs_slot \<circ> snd) ` set (fc_streams s)"
proof -
  show "set (fc_draining t) \<subseteq> set (fc_draining s)"
    using assms set_remove1_subset [of _ "fc_draining s"]
    by cases (auto simp: drop_stream_def unsubscribe_def Let_def split: option.split)
  show "(fs_slot \<circ> snd) ` set (fc_streams t) \<subseteq> (fs_slot \<circ> snd) ` set (fc_streams s)"
    using assms
  proof cases
    case (poll i f x)
    from same_slots(2) [OF polled_slots [OF poll(2), of x]] have "set (map (fs_slot \<circ> snd) (fc_streams t)) = set (map (fs_slot \<circ> snd) (fc_streams s))"
      by (simp add: poll(1))
    then show ?thesis by simp
  next
    case (drop i)
    then have "set (fc_streams t) \<subseteq> set (fc_streams s)"
      using set_delete_subset [of i "fc_streams s"] by (simp add: drop_stream_def Let_def split: option.split)
    then show ?thesis by (rule image_mono)
  qed (auto simp: unsubscribe_def)
qed

lemma handle_ok_step: "handle_ok w \<Longrightarrow> handle_step w v \<Longrightarrow> handle_ok v"
  by (erule handle_step.cases)
    (auto simp: handle_ok_def drop_handle_def promotion_guard_drop_def dest: steps_are_fast fast_ok_step guard_step_same beside_step_same)

interpretation handle: step_invariant "\<lambda>w. \<exists>peer_id conn. w = handle_new peer_id conn" handle_step handle_ok
proof (unfold_locales, goal_cases)
  case (1 w)
  then show ?case by (auto simp: handle_ok_def handle_new_def fast_ok_build)
next
  case (2 w v)
  then show ?case by (rule handle_ok_step)
qed

text \<open>After the drop of the handle.\<close>

definition winding_down :: "('y, 'st) fast_handle \<Rightarrow> ('y, 'st) fast_handle \<Rightarrow> bool" where
  "winding_down w v \<longleftrightarrow> fh_dropped v \<and> (fh_guard w = Gone \<longrightarrow> fh_guard v = Gone)
     \<and> length (fc_slots (fh_conn v)) + (if fh_guard v = Gone then 0 else 1) \<le> length (fc_slots (fh_conn w)) + (if fh_guard w = Gone then 0 else 1)
     \<and> fc_next_stream (fh_conn v) = fc_next_stream (fh_conn w)
     \<and> (fh_guard w = Gone \<longrightarrow> transports_held v \<subseteq> transports_held w)"

lemma winding_down_step:
  assumes "handle_ok w" "fh_dropped w" "handle_step w v"
  shows "winding_down w v"
  using assms(3)
proof cases
  case (beside s)
  with beside_step_same [OF beside(2)] beside_step_holders [OF beside(2)] assms(2) show ?thesis
    by (auto simp: winding_down_def transports_held_def)
next
  case (last_stretch s)
  with guard_step_same [OF last_stretch(3)] assms(2) show ?thesis by (simp add: winding_down_def)
qed (use assms(1,2) in \<open>auto simp: winding_down_def handle_ok_def transports_held_def\<close>)

lemma winding_down_steps:
  assumes "handle_step\<^sup>*\<^sup>* w v" "handle_ok w" "fh_dropped w"
  shows "winding_down w v"
  using assms(1)
proof (induction rule: rtranclp_induct)
  case base
  with assms(3) show ?case by (simp add: winding_down_def)
next
  case (step u v)
  have "handle_ok u" using handle.inv_steps [OF step(1) assms(2)] .
  moreover have "fh_dropped u" using step(3) by (simp add: winding_down_def)
  ultimately have "winding_down u v" using step(2) by (rule winding_down_step)
  with step(3) show ?case by (auto simp: winding_down_def)
qed

section \<open>Properties\<close>

text \<open>C29.  No background work outlives the handle.  Once it is dropped, whatever runs on: no stream is opened any more, the
  connection gets at most the one transport whose dial was already landing, and none once the guard is gone.  From then
  on exactly the transports of live streams and drain tasks are held, no transport comes to life again, and when the
  last stream and the last drain task are gone every transport has been released.\<close>

theorem dropped_handle_winds_down:
  assumes "handle_step\<^sup>*\<^sup>* (handle_new peer_id conn) w" "fh_dropped w" "handle_step\<^sup>*\<^sup>* w v"
  shows "fc_next_stream (fh_conn v) = fc_next_stream (fh_conn w)
    \<and> length (fc_slots (fh_conn v)) \<le> length (fc_slots (fh_conn w)) + (if fh_guard w = Gone then 0 else 1)
    \<and> (fh_guard w = Gone \<longrightarrow> transports_held v \<subseteq> transports_held w
        \<and> transports_held w = set (fc_draining (fh_conn w)) \<union> (fs_slot \<circ> snd) ` set (fc_streams (fh_conn w))
        \<and> (fc_draining (fh_conn v) = [] \<longrightarrow> fc_streams (fh_conn v) = [] \<longrightarrow> transports_held v = {}))"
proof -
  have ok: "handle_ok w" "handle_ok v"
    using handle.inv_reachable [OF _ assms(1)] handle.inv_steps [OF assms(3)] by blast+
  have "winding_down w v" using winding_down_steps [OF assms(3) ok(1) assms(2)] .
  with ok assms(2) show ?thesis
    by (auto simp: winding_down_def handle_ok_def transports_held_def split: if_splits)
qed

theorem dropped_handle_winds_down_witness:
  "transports_held ((drop_handle (handle_new [2] demo_relayed))\<lparr> fh_guard := Gone \<rparr>) = {}"
proof -
  let ?w = "handle_new [2] demo_relayed" let ?d = "drop_handle ?w" let ?g = "?d\<lparr> fh_guard := Gone \<rparr>"
  have "handle_step ?w ?d" by (rule handle_step.dropped) (simp_all add: handle_new_def fast_build_def Let_def)
  moreover have "handle_step ?d ?g"
    by (rule handle_step.cancelled) (simp add: drop_handle_def promotion_guard_drop_def handle_new_def)
  ultimately have reach: "handle_step\<^sup>*\<^sup>* ?w ?g" by (meson converse_rtranclp_into_rtranclp r_into_rtranclp)
  from dropped_handle_winds_down [OF reach _ rtranclp.rtrancl_refl] show ?thesis
    by (simp add: drop_handle_def handle_new_def fast_build_def Let_def)
qed

end
