(* ===== verification/Spec2Isabelle.thy ===== *)
theory Spec2Isabelle imports Prelude Chunk_Lens Traversal Nat_Pmp Pcp Upnp_Igd Strategy Dialer Ladder
  Relay_Basics Relay_Tunnels Glare Relay_Session Safe_Text Framing Tunnel_Stream Mux_Session
  Relay_Transport Relay_Descriptor Stun Fast_Transport Fast_Lifecycle Fast_Connect
  Relayed_Pipe Prologue_Stream Guard_Run Circuit_Ledger Rendering Lock_Regions Fast_Session
  Fast_Handle begin

text \<open>
  A verification development of \<open>dig-nat\<close>, the NAT traversal and transport crate of the DIG network.

  The program.  \<open>connect\<close> (\<open>src/src/lib.rs\<close>) composes the traversal ladder a node can run and hands it to the
  strategy, which tries the tiers in rank order, direct first and relayed last, each with a bounded attempt and a
  bounded dial.  Every dial ends in one mutually authenticated TLS handshake pinned to the identity that was asked
  for, over TCP or over a relayed circuit, and gives a multiplexed session on which content is requested
  (availability queries, byte ranges) in length-prefixed JSON messages.  A node also holds a reservation at an
  untrusted relay: a WebSocket session with reconnects that announces peers and forwards the frames of relayed
  circuits, whose registry decides which end of a circuit is the TLS client.

  Theories and code (all files under \<open>src/src/\<close>).

  \<^item> \<open>Prelude\<close>: machine integers, panics as \<open>option\<close>, errors as sums, timed futures (\<open>None\<close> hangs, \<open>Some (d, r)\<close>
    completes after \<open>d\<close> milliseconds), big-endian codecs, and the locales \<open>codec\<close> and \<open>step_invariant\<close>.
  \<^item> \<open>Traversal\<close>: \<open>method/mod.rs\<close>, \<open>method/direct.rs\<close>, \<open>method/hole_punch.rs\<close>, \<open>method/relayed.rs\<close>, \<open>error.rs\<close>,
    \<open>peer.rs\<close>; the trait \<open>TraversalMethod\<close> is a locale that every tier interprets.
  \<^item> \<open>Nat_Pmp\<close>, \<open>Pcp\<close>, \<open>Upnp_Igd\<close>: \<open>method/natpmp.rs\<close>, \<open>method/pcp.rs\<close>, \<open>method/upnp.rs\<close>; request and response
    codecs byte by byte, the UDP transaction with its deadline, the IPv6 address choice.
  \<^item> \<open>Strategy\<close>: \<open>strategy.rs\<close>, equal to a declarative first-success specification.
  \<^item> \<open>Dialer\<close>: \<open>dialer.rs\<close> and \<open>accept.rs\<close>.  \<open>Ladder\<close>: \<open>config.rs\<close>, \<open>runtime.rs\<close> and \<open>lib.rs\<close>, the whole of
    \<open>connect_with_runtime\<close>.
  \<^item> \<open>Relay_Basics\<close>: \<open>wire.rs\<close> and the first part of \<open>relay.rs\<close> (constants, environment, endpoint parser, backoff,
    peer directory).  \<open>Relay_Tunnels\<close>: \<open>RelayStatus\<close> and \<open>RelayTunnel\<close> of \<open>relay.rs\<close>, one step per operation,
    with the reachable states of any sequence of operations.  \<open>Glare\<close>: two such nodes with the relay between them.
    \<open>Relay_Session\<close>: \<open>connect_once\<close>, \<open>serve_session\<close>, \<open>handle_incoming\<close> and the reconnect loop.
  \<^item> \<open>Safe_Text\<close>: \<open>safe_text.rs\<close>.  \<open>Framing\<close>: the message records, builders and codecs of \<open>mux.rs\<close>.
    \<open>Chunk_Lens\<close>: the paged \<open>chunk_lens\<close> prologue of \<open>mux.rs\<close>.  \<open>Mux_Session\<close>: \<open>PeerSession\<close> and its driver.
    \<open>Tunnel_Stream\<close>: \<open>tunnel.rs\<close>, a circuit as a byte stream.  \<open>Rendering\<close>: what \<open>error.rs\<close> and \<open>safe_text.rs\<close>
    print, and \<open>snapshot_json\<close> of \<open>relay.rs\<close>.
  \<^item> \<open>Fast_Transport\<close>: the slots, streams, promotion gate and guard of \<open>fast_connect.rs\<close>, with the steps of caller,
    guard and drain tasks as one relation.  \<open>Fast_Lifecycle\<close>: its drain task and wakeups, the pacing of re-dials, and
    what promotion and release guarantee.  \<open>Fast_Connect\<close>: \<open>connect_fast\<close>, the race and its specification.
    \<open>Fast_Handle\<close>: the handle with its background task, and what a drop of the handle leaves.
  \<^item> \<open>Relay_Transport\<close>: \<open>ReservationRelayedTransport\<close> of \<open>method/relayed.rs\<close>.  \<open>Relay_Descriptor\<close>:
    \<open>relay_descriptor.rs\<close>.  \<open>Stun\<close>: \<open>stun.rs\<close>.
  \<^item> Compositions.  \<open>Relayed_Pipe\<close>: both ends of a relayed circuit with the relay between them, as two byte pipes.
    \<open>Prologue_Stream\<close>: the paged prologue over the framed stream, cut off anywhere.  \<open>Guard_Run\<close>: a whole run of the
    guard.  \<open>Circuit_Ledger\<close>: the abstract contract of the circuit registry and the refinement from \<open>RelayStatus\<close>.
    \<open>Fast_Session\<close>: a fast connection from its race to the end of its guard.  \<open>Lock_Regions\<close>: \<open>RelayStatus\<close> again,
    every operation as its sequence of locks and atomic accesses, under any interleaving of any number of operations.

  What the lemmas show.  Codecs: what an encoder writes its decoder reads, bounds on what a decoder reads, exact
  error branches.  Registries: an invariant preserved by every operation and every sequence of them, stated once as
  \<open>step_invariant\<close>.  Loops: the exact result against a specification, and the time they take.  Interfaces: a locale
  for each (codec, write-once store, traversal method, circuit registry, payload source, step invariant), each
  interpreted on the code's own definitions.

  Concurrency.  A select loop is a function of the sequence of events it handles; other tasks are events of that
  sequence.  \<open>Relay_Tunnels\<close> runs every operation on the status as one step.  Several of them take more than one lock;
  \<open>Lock_Regions\<close> splits each into its regions, proves that an operation whose regions run one after the other is the one of
  \<open>Relay_Tunnels\<close>, that the bounds of the status hold under every interleaving, and shows what only interleaving
  can produce.  \<open>Glare\<close> states what a dial between the two regions of \<open>route_relayed\<close> does to the pair of nodes.

  Bounds.  No fuel is used: loops recurse over the list of events or arrivals they are given, and statements
  quantify over all such lists.  An establisher of the fast connection is the sequence of the futures its calls give.  Times are
  natural numbers of milliseconds.

  Parameters.  Code outside the repository is an argument: the TLS library and its pinning contract (\<open>spki_pinned\<close>),
  the family-racing connect, JSON (\<open>json_roundtrip\<close>, \<open>compact_json\<close>), WebSocket, DNS and UDP sockets, yamux, IGD,
  channels.

  Not modelled: the \<open>Debug\<close> implementations of dialers, acceptors, connections and sessions (they print fixed words
  for their contents), the base64 engine behind the field adapter of \<open>RangeFrame\<close> (a parameter), the draw of the PCP
  nonce, and the test modules; of these only the pair of reservations the relay tests dial over is used, as a start state.
\<close>

end
